theory Spec2Isabelle
  imports Complex_Main "HOL-Library.Word"
begin

unbundle bit_operations_syntax

section \<open>Shared machine types\<close>

text \<open>
  \<open>uint64_t\<close> and \<open>size_t\<close> (LP64) are 64-bit words; \<open>+\<close> on them wraps around.
  A \<open>rocksdb::Slice\<close> or a \<open>std::string\<close> used as a byte container is a list of bytes.
  A \<open>double\<close> is an IEEE 754 binary64 value (section below); only the catalog's read
  ratios, which are literals that never enter a computation, are kept as the decimal
  numbers the source writes.
  A thrown \<open>std::runtime_error\<close> is the value \<open>RuntimeError what\<close>; an exception thrown
  by \<open>std::filesystem\<close> is \<open>FilesystemError what\<close>.
\<close>

type_synonym u64 = "64 word"
type_synonym byte = "8 word"
type_synonym slice = "byte list"

datatype error = RuntimeError string | FilesystemError string

section \<open>IEEE 754 binary64\<close>

text \<open>
  A binary64 value is a finite number (\<open>Finite 0\<close> is \<open>+0\<close>), the negative zero, an
  infinity or a NaN. Every finite value produced by the operations below is a multiple
  of a power of two with at most 53 significant bits.
\<close>

datatype double = Finite real | NegZero | PlusInf | MinusInf | NaN

text \<open>
  Rounding to nearest, ties to even, which is the rounding of every conversion and
  operation in the default floating-point environment. For \<open>x > 0\<close>, \<open>exponent x\<close>
  is the binade of \<open>x\<close>: the \<open>e\<close> with \<open>2^e \<le> x < 2^(e+1)\<close>, but never below the
  smallest normal exponent \<open>-1022\<close> (subnormal numbers share it). \<open>binade_ge1\<close> counts
  the halvings that bring \<open>x \<ge> 1\<close> below 2, \<open>binade_lt1\<close> the doublings, at most
  1022, that bring \<open>x < 1\<close> up to 1.
\<close>

function binade_ge1 :: "real \<Rightarrow> nat" where
  "binade_ge1 x = (if x < 2 then 0 else Suc (binade_ge1 (x / 2)))"
  by pat_completeness auto
termination
proof (relation "measure (\<lambda>x. nat \<lfloor>x\<rfloor>)")
  show "wf (measure (\<lambda>x. nat \<lfloor>x\<rfloor>))" by simp
next
  fix x :: real
  assume "\<not> x < 2"
  then have "x / 2 \<le> x - 1" by simp
  then have "\<lfloor>x / 2\<rfloor> \<le> \<lfloor>x - 1\<rfloor>" by (rule floor_mono)
  moreover from \<open>\<not> x < 2\<close> have "2 \<le> \<lfloor>x\<rfloor>" by (simp add: le_floor_iff)
  ultimately show "(x / 2, x) \<in> measure (\<lambda>x. nat \<lfloor>x\<rfloor>)" by simp
qed

fun binade_lt1 :: "nat \<Rightarrow> real \<Rightarrow> nat" where
  "binade_lt1 0 x = 0"
| "binade_lt1 (Suc k) x = (if 1 \<le> x then 0 else Suc (binade_lt1 k (2 * x)))"

definition exponent :: "real \<Rightarrow> int" where
  "exponent x = (if 1 \<le> x then int (binade_ge1 x) else - int (binade_lt1 1022 x))"

text \<open>The integer nearest to \<open>q\<close>, the even one of the two when \<open>q\<close> lies halfway.\<close>

definition round_half_even :: "real \<Rightarrow> int" where
  "round_half_even q =
     (let f = \<lfloor>q\<rfloor>; r = q - of_int f
      in if r < 1 / 2 then f else if 1 / 2 < r then f + 1 else if even f then f else f + 1)"

text \<open>
  A positive number rounded to 53 significant bits: the unit in the last place of its
  binade is \<open>2^(e-52)\<close>.
\<close>

definition round_magnitude :: "real \<Rightarrow> real" where
  "round_magnitude x =
     (let ulp = 2 powi (exponent x - 52)
      in of_int (round_half_even (x / ulp)) * ulp)"

text \<open>
  The binary64 value of a real number: the rounded magnitude with the sign of the
  number; a magnitude that rounds to \<open>2^1024\<close> or more overflows to an infinity, one
  that rounds to 0 underflows to a zero of the number's sign. This is the value of a
  decimal literal and of \<open>static_cast<double>\<close> on an integer.
\<close>

definition double_of_real :: "real \<Rightarrow> double" where
  "double_of_real x =
     (if x = 0 then Finite 0
      else
        let m = round_magnitude \<bar>x\<bar>
        in if 2 powi 1024 \<le> m then (if 0 < x then PlusInf else MinusInf)
           else if m = 0 then (if 0 < x then Finite 0 else NegZero)
           else Finite (if 0 < x then m else - m))"

text \<open>Division and comparison as IEEE 754 defines them.\<close>

fun is_negative :: "double \<Rightarrow> bool" where
  "is_negative (Finite x) = (x < 0)"
| "is_negative NegZero = True"
| "is_negative MinusInf = True"
| "is_negative PlusInf = False"
| "is_negative NaN = False"

fun is_zero :: "double \<Rightarrow> bool" where
  "is_zero (Finite x) = (x = 0)"
| "is_zero NegZero = True"
| "is_zero d = False"

fun is_inf :: "double \<Rightarrow> bool" where
  "is_inf PlusInf = True"
| "is_inf MinusInf = True"
| "is_inf d = False"

fun value_of :: "double \<Rightarrow> real" where
  "value_of (Finite x) = x"
| "value_of d = 0"

definition double_div :: "double \<Rightarrow> double \<Rightarrow> double" where
  "double_div a b =
     (if a = NaN \<or> b = NaN then NaN
      else if is_inf a \<and> is_inf b then NaN
      else if is_zero a \<and> is_zero b then NaN
      else if is_inf a \<or> is_zero b
        then (if is_negative a \<noteq> is_negative b then MinusInf else PlusInf)
      else if is_zero a \<or> is_inf b
        then (if is_negative a \<noteq> is_negative b then NegZero else Finite 0)
      else double_of_real (value_of a / value_of b))"

definition double_le :: "double \<Rightarrow> double \<Rightarrow> bool" where
  "double_le a b =
     (a \<noteq> NaN \<and> b \<noteq> NaN \<and>
      (a = MinusInf \<or> b = PlusInf \<or> (\<not> is_inf a \<and> \<not> is_inf b \<and> value_of a \<le> value_of b)))"

section \<open>merge\_bench.cc\<close>

subsection \<open>Workload catalog\<close>

record Workload =
  name :: string
  read_ratio :: real

definition kWorkloads :: "Workload list" where
  "kWorkloads =
     [\<lparr>name = ''10/90'', read_ratio = 0.10\<rparr>,
      \<lparr>name = ''50/50'', read_ratio = 0.50\<rparr>,
      \<lparr>name = ''90/10'', read_ratio = 0.90\<rparr>]"

text \<open>
  \<^verbatim>\<open>std::vector<Workload> SelectWorkloads(const std::string& filter)\<close>:
  the whole catalog for the empty filter; otherwise the entries whose name equals the
  filter, pushed in catalog order; an empty selection throws.
\<close>

definition SelectWorkloads :: "string \<Rightarrow> error + Workload list" where
  "SelectWorkloads filter_name =
     (if filter_name = [] then Inr kWorkloads
      else
        let selected =
              foldl (\<lambda>sel w. if name w = filter_name then sel @ [w] else sel) [] kWorkloads
        in if selected = []
           then Inl (RuntimeError (''Unknown workload mix filter: '' @ filter_name))
           else Inr selected)"

subsection \<open>The counter codec\<close>

text \<open>
  \<open>std::memcpy(dst, src, n)\<close> on byte buffers: the first \<open>n\<close> bytes of \<open>dst\<close> are
  replaced by the first \<open>n\<close> bytes of \<open>src\<close>. Both callers pass \<open>n\<close> no larger than
  either buffer.
\<close>

definition memcpy :: "byte list \<Rightarrow> byte list \<Rightarrow> nat \<Rightarrow> byte list" where
  "memcpy dst src n = take n src @ drop n dst"

text \<open>
  The object representation of a \<open>uint64_t\<close> is its eight bytes, least significant
  first (little-endian targets: x86-64, AArch64).
\<close>

fun bytes_of_u64 :: "nat \<Rightarrow> u64 \<Rightarrow> byte list" where
  "bytes_of_u64 0 x = []"
| "bytes_of_u64 (Suc n) x = ucast x # bytes_of_u64 n (drop_bit 8 x)"

fun u64_of_bytes :: "byte list \<Rightarrow> u64" where
  "u64_of_bytes [] = 0"
| "u64_of_bytes (b # bs) = ucast b OR push_bit 8 (u64_of_bytes bs)"

definition sizeof_uint64_t :: nat where
  "sizeof_uint64_t = 8"

text \<open>
  \<^verbatim>\<open>uint64_t Decode(const rocksdb::Slice& value) {
    uint64_t x = 0;
    std::memcpy(&x, value.data(), std::min<size_t>(value.size(), sizeof(uint64_t)));
    return x; }\<close>
\<close>

definition Decode :: "slice \<Rightarrow> u64" where
  "Decode v =
     (let x = bytes_of_u64 sizeof_uint64_t 0;
          x = memcpy x v (min (length v) sizeof_uint64_t)
      in u64_of_bytes x)"

text \<open>
  \<^verbatim>\<open>std::string Encode(uint64_t value) {
    std::string out(sizeof(uint64_t), '\0');
    std::memcpy(out.data(), &value, sizeof(uint64_t));
    return out; }\<close>
\<close>

definition Encode :: "u64 \<Rightarrow> slice" where
  "Encode v =
     (let out = replicate sizeof_uint64_t 0
      in memcpy out (bytes_of_u64 sizeof_uint64_t v) sizeof_uint64_t)"

subsection \<open>CountMergeOperator\<close>

text \<open>
  The fields of \<open>MergeOperationInput\<close> that \<open>FullMergeV2\<close> reads: the base value
  (\<open>nullptr\<close> is \<open>None\<close>) and the pending operands, oldest first. The function returns
  its success flag together with the \<open>new_value\<close> it stores in the output.
\<close>

record MergeOperationInput =
  existing_value :: "slice option"
  operand_list :: "slice list"

definition FullMergeV2 :: "MergeOperationInput \<Rightarrow> bool \<times> slice" where
  "FullMergeV2 merge_in =
     (let accumulator = (0 :: u64);
          accumulator =
            (case existing_value merge_in of
               None \<Rightarrow> accumulator
             | Some v \<Rightarrow> accumulator + Decode v);
          accumulator =
            foldl (\<lambda>acc operand. acc + Decode operand) accumulator (operand_list merge_in)
      in (True, Encode accumulator))"

text \<open>
  \<open>PartialMerge\<close> ignores every argument, leaves \<open>*new_value\<close> as it was and
  returns \<open>false\<close>. The model returns the flag and the untouched \<open>new_value\<close>.
\<close>

definition PartialMerge :: "slice \<Rightarrow> slice \<Rightarrow> slice \<Rightarrow> slice \<Rightarrow> bool \<times> slice" where
  "PartialMerge key left_operand right_operand new_value = (False, new_value)"

section \<open>space\_amp.cc\<close>

subsection \<open>Constants\<close>

definition kRawPayloadBytes :: u64 where
  "kRawPayloadBytes = 4 * 1024 * 1024 * 1024"

definition kKeySize :: nat where
  "kKeySize = 32"

definition kValueSize :: nat where
  "kValueSize = 96"

definition kEntryBytes :: nat where
  "kEntryBytes = kKeySize + kValueSize"

definition kEntryCount :: u64 where
  "kEntryCount = kRawPayloadBytes div word_of_nat kEntryBytes"

subsection \<open>Deterministic data generator\<close>

text \<open>
  \<open>printf\<close>'s \<open>%llu\<close>: the decimal digits of an unsigned number, most significant
  first, with no leading zero except for the number 0 itself.
\<close>

definition digit_char :: "nat \<Rightarrow> char" where
  "digit_char d = char_of (48 + d)"

function dec_digits :: "nat \<Rightarrow> string" where
  "dec_digits n =
     (if n < 10 then [digit_char n] else dec_digits (n div 10) @ [digit_char (n mod 10)])"
  by pat_completeness auto
termination
  by (relation "measure id") auto

text \<open>The \<open>0\<close> flag with field width \<open>w\<close>: zeros on the left up to the width, never a cut.\<close>

definition zero_pad :: "nat \<Rightarrow> string \<Rightarrow> string" where
  "zero_pad w s = replicate (w - length s) (CHR ''0'') @ s"

definition printf_032llu :: "u64 \<Rightarrow> string" where
  "printf_032llu x = zero_pad 32 (dec_digits (unat x))"

text \<open>
  \<open>snprintf(buf, n, ...)\<close> stores at most \<open>n - 1\<close> characters of the formatted
  text followed by a NUL and leaves the rest of the buffer as it was; with \<open>n = 0\<close> it
  stores nothing.
\<close>

definition snprintf :: "string \<Rightarrow> nat \<Rightarrow> string \<Rightarrow> string" where
  "snprintf buffer n formatted =
     (if n = 0 then buffer
      else
        let out = take (n - 1) formatted
        in out @ [CHR 0x00] @ drop (length out + 1) buffer)"

text \<open>
  \<^verbatim>\<open>void FormatKey(uint64_t index, std::array<char, kKeySize + 1>* buffer) {
    std::snprintf(buffer->data(), buffer->size(), "%032llu", (unsigned long long)index); }\<close>
  The model returns the new contents of the buffer.
\<close>

definition FormatKey :: "u64 \<Rightarrow> string \<Rightarrow> string" where
  "FormatKey index buffer = snprintf buffer (length buffer) (printf_032llu index)"

text \<open>\<open>rocksdb::Slice key_slice(key_buffer.data(), kKeySize)\<close>: the first 32 bytes.\<close>

definition key_slice :: "string \<Rightarrow> string" where
  "key_slice key_buffer = take kKeySize key_buffer"

text \<open>
  \<^verbatim>\<open>void FillValue(uint64_t index, std::array<char, kValueSize>* buffer) {
    for (size_t i = 0; i < kValueSize; ++i)
      (*buffer)[i] = static_cast<char>('a' + ((index + i) % 26)); }\<close>
  \<open>index + i\<close> and \<open>'a' + ...\<close> are 64-bit unsigned sums; the cast to \<open>char\<close>
  keeps the low 8 bits (\<open>char_of\<close>). \<open>FillValue_loop\<close> is the loop from counter
  \<open>i\<close> onwards. The buffer is an array of exactly \<open>kValueSize\<close> bytes, so every
  index the loop writes is in range.
\<close>

function FillValue_loop :: "u64 \<Rightarrow> nat \<Rightarrow> string \<Rightarrow> string" where
  "FillValue_loop index i buffer =
     (if i < kValueSize
      then FillValue_loop index (i + 1)
             (buffer[i := char_of (unat ((97 :: u64) + (index + word_of_nat i) mod 26))])
      else buffer)"
  by pat_completeness auto
termination
  by (relation "measure (\<lambda>(index, i, buffer). kValueSize - i)") auto

definition FillValue :: "u64 \<Rightarrow> string \<Rightarrow> string" where
  "FillValue index buffer = FillValue_loop index 0 buffer"

text \<open>
  The spec's reading of a key: a string is a valid non-negative decimal integer when it
  is non-empty and every character is one of \<open>0\<close>..\<open>9\<close>; its value is read most
  significant digit first.
\<close>

definition digit_of_char :: "char \<Rightarrow> nat option" where
  "digit_of_char c =
     (let v = (of_char c :: nat) in if 48 \<le> v \<and> v \<le> 57 then Some (v - 48) else None)"

fun parse_decimal_from :: "nat \<Rightarrow> string \<Rightarrow> nat option" where
  "parse_decimal_from acc [] = Some acc"
| "parse_decimal_from acc (c # cs) =
     (case digit_of_char c of
        None \<Rightarrow> None
      | Some d \<Rightarrow> parse_decimal_from (10 * acc + d) cs)"

definition parse_decimal :: "string \<Rightarrow> nat option" where
  "parse_decimal s = (if s = [] then None else parse_decimal_from 0 s)"

subsection \<open>The storage engine boundary\<close>

text \<open>
  RocksDB, the filesystem and the steady clock are outside the program. A
  \<open>rocksdb::Status\<close> is \<open>OK\<close>, a not-found result, or any other failure; the string is
  what \<open>ToString()\<close> prints.
\<close>

datatype status = OK | NotFound string | Failure string

definition ok :: "status \<Rightarrow> bool" where
  "ok s = (s = OK)"

fun ToString :: "status \<Rightarrow> string" where
  "ToString OK = ''OK''"
| "ToString (NotFound m) = m"
| "ToString (Failure m) = m"

datatype CompressionType = kNoCompression | kSnappyCompression | kZSTD

text \<open>The fields of the option structs that the program assigns.\<close>

record BlockBasedTableOptions =
  table_block_size :: u64
  cache_index_and_filter_blocks :: bool
  pin_l0_filter_and_index_blocks_in_cache :: bool
  block_cache :: "string option"
  no_block_cache :: bool
  filter_policy :: "string option"

record Options =
  create_if_missing :: bool
  error_if_exists :: bool
  compression :: CompressionType
  bottommost_compression :: CompressionType
  level_compaction_dynamic_level_bytes :: bool
  write_buffer_size :: nat
  max_write_buffer_number :: int
  target_file_size_base :: nat
  max_background_compactions :: int
  max_background_flushes :: int
  disable_auto_compactions :: bool
  use_direct_reads :: bool
  use_direct_io_for_flush_and_compaction :: bool
  compaction_readahead_size :: nat
  table_factory :: BlockBasedTableOptions

record WriteOptions =
  disableWAL :: bool

record ReadOptions =
  fill_cache :: bool
  verify_checksums :: bool

record FlushOptions =
  wait :: bool

text \<open>
  Every call the program makes across the boundary. A \<open>Write\<close> carries the contents of
  the batch it submits, in insertion order. \<open>Close\<close> is the destruction of the
  \<open>rocksdb::DB\<close> object, by \<open>db.reset()\<close> or by the \<open>unique_ptr\<close> going out of scope.
\<close>

datatype call =
    CreateDirectories string
  | Exists string
  | RemoveAll string
  | Open Options string
  | OpenForReadOnly Options string
  | Write WriteOptions "(string \<times> string) list"
  | Flush FlushOptions
  | CompactRange "string option" "string option"
  | GetAggregatedIntProperty string
  | Get ReadOptions string
  | Close

text \<open>
  The environment is any deterministic one: what a call returns is a function of the
  calls made so far (the trace) and of the call itself. \<open>clock_of\<close> is
  \<open>steady_clock::now()\<close> in clock ticks; the tick of \<open>steady_clock\<close> is one
  nanosecond (libstdc++, libc++).
\<close>

record world =
  status_of :: "call list \<Rightarrow> call \<Rightarrow> status"
  exists_of :: "call list \<Rightarrow> string \<Rightarrow> bool"
  property_of :: "call list \<Rightarrow> string \<Rightarrow> u64 option"
  clock_of :: "call list \<Rightarrow> int"

text \<open>
  The standard library's random numbers: \<open>mt19937_64_seed s\<close> is the state of
  \<open>std::mt19937_64 rng(s)\<close>, and \<open>uniform_int_distribution a b\<close> is one draw of
  \<open>std::uniform_int_distribution<uint64_t> dist(a, b)\<close>, returning the number and the
  generator's next state.
\<close>

record 'g random_lib =
  mt19937_64_seed :: "u64 \<Rightarrow> 'g"
  uniform_int_distribution :: "u64 \<Rightarrow> u64 \<Rightarrow> 'g \<Rightarrow> u64 \<times> 'g"

text \<open>
  A computation takes the trace so far and returns its result, or the exception it
  throws, together with the extended trace.
\<close>

type_synonym 'a io = "call list \<Rightarrow> (error + 'a) \<times> call list"

definition io_return :: "'a \<Rightarrow> 'a io" where
  "io_return x t = (Inr x, t)"

definition io_throw :: "error \<Rightarrow> 'a io" where
  "io_throw e t = (Inl e, t)"

definition io_bind :: "'a io \<Rightarrow> ('a \<Rightarrow> 'b io) \<Rightarrow> 'b io" where
  "io_bind m f t = (case m t of (Inl e, t') \<Rightarrow> (Inl e, t') | (Inr x, t') \<Rightarrow> f x t')"

text \<open>An engine call returns its status; the caller decides what a failure means.\<close>

definition engine_call :: "world \<Rightarrow> call \<Rightarrow> status io" where
  "engine_call W c t = (Inr (status_of W t c), t @ [c])"

text \<open>A \<open>std::filesystem\<close> call throws when the operating system reports an error.\<close>

definition fs_call :: "world \<Rightarrow> call \<Rightarrow> unit io" where
  "fs_call W c t =
     (let s = status_of W t c
      in if ok s then (Inr (), t @ [c]) else (Inl (FilesystemError (ToString s)), t @ [c]))"

definition fs_exists :: "world \<Rightarrow> string \<Rightarrow> bool io" where
  "fs_exists W p t =
     (let s = status_of W t (Exists p)
      in if ok s then (Inr (exists_of W t p), t @ [Exists p])
         else (Inl (FilesystemError (ToString s)), t @ [Exists p]))"

definition get_property :: "world \<Rightarrow> string \<Rightarrow> u64 option io" where
  "get_property W p t = (Inr (property_of W t p), t @ [GetAggregatedIntProperty p])"

text \<open>
  The lifetime of an open \<open>std::unique_ptr<rocksdb::DB>\<close>: the database is closed
  when the scope is left, normally or by an exception.
\<close>

definition with_db :: "'a io \<Rightarrow> 'a io" where
  "with_db body t = (case body t of (r, t') \<Rightarrow> (r, t' @ [Close]))"

subsection \<open>Configuration and results\<close>

record Config =
  block_sizes :: "int list"
  db_root :: string
  keep_dbs :: bool
  read_ops :: u64

record Result =
  block_size :: int
  total_sst_bytes :: u64
  estimated_keys :: u64
  table_readers_mem :: u64
  amplification :: double
  read_ops_per_sec :: double

record ReadStats =
  ops_per_sec :: double

text \<open>\<open>std::to_string(int)\<close> and \<open>operator<<(int)\<close>.\<close>

definition to_string :: "int \<Rightarrow> string" where
  "to_string x = (if x < 0 then CHR ''-'' # dec_digits (nat (- x)) else dec_digits (nat x))"

text \<open>\<open>std::filesystem::path::operator/\<close> with a relative right-hand side.\<close>

definition path_append :: "string \<Rightarrow> string \<Rightarrow> string" where
  "path_append p q = (if p = [] \<or> last p = CHR ''/'' then p @ q else p @ CHR ''/'' # q)"

definition BuildOptions :: "int \<Rightarrow> Options" where
  "BuildOptions bs =
     \<lparr>create_if_missing = True,
      error_if_exists = True,
      compression = kNoCompression,
      bottommost_compression = kNoCompression,
      level_compaction_dynamic_level_bytes = True,
      write_buffer_size = 256 * 1024 * 1024,
      max_write_buffer_number = 4,
      target_file_size_base = 512 * 1024 * 1024,
      max_background_compactions = 4,
      max_background_flushes = 2,
      disable_auto_compactions = False,
      use_direct_reads = True,
      use_direct_io_for_flush_and_compaction = True,
      compaction_readahead_size = 2 * 1024 * 1024,
      table_factory =
        \<lparr>table_block_size = word_of_int bs,
         cache_index_and_filter_blocks = False,
         pin_l0_filter_and_index_blocks_in_cache = False,
         block_cache = None,
         no_block_cache = True,
         filter_policy = None\<rparr>\<rparr>"

subsection \<open>Bulk loader (the loading part of \<open>RunOnce\<close>)\<close>

definition write_options :: WriteOptions where
  "write_options = \<lparr>disableWAL = True\<rparr>"

definition batch_size :: nat where
  "batch_size = 1000"

text \<open>
  One iteration of the loading loop at counter \<open>i\<close>: format the key and the value into
  their buffers, put the pair into the batch, and submit and clear the batch once it
  holds \<open>batch_size\<close> entries. The state is the two buffers and the batch.
  \<^verbatim>\<open>FormatKey(i, &key_buffer); FillValue(i, &value_buffer);
  batch.Put(key_slice, value_slice);
  if (batch.Count() >= static_cast<int>(batch_size)) {
    status = db->Write(write_options, &batch);
    if (!status.ok()) throw std::runtime_error("Write failed: " + status.ToString());
    batch.Clear(); }\<close>
\<close>

definition load_body ::
  "world \<Rightarrow> nat \<Rightarrow> string \<times> string \<times> (string \<times> string) list \<Rightarrow>
   (string \<times> string \<times> (string \<times> string) list) io" where
  "load_body W i st t =
     (case st of (key_buffer, value_buffer, batch) \<Rightarrow>
        let key_buffer = FormatKey (word_of_nat i) key_buffer;
            value_buffer = FillValue (word_of_nat i) value_buffer;
            batch = batch @ [(key_slice key_buffer, take kValueSize value_buffer)]
        in if length batch \<ge> batch_size
           then
             let status = status_of W t (Write write_options batch);
                 t = t @ [Write write_options batch]
             in if \<not> ok status
                then (Inl (RuntimeError (''Write failed: '' @ ToString status)), t)
                else (Inr (key_buffer, value_buffer, []), t)
           else (Inr (key_buffer, value_buffer, batch), t))"

text \<open>\<^verbatim>\<open>for (uint64_t i = 0; i < kEntryCount; ++i) { ... }\<close> from counter \<open>i\<close> onwards.\<close>

function load_loop ::
  "world \<Rightarrow> nat \<Rightarrow> nat \<Rightarrow> string \<times> string \<times> (string \<times> string) list \<Rightarrow>
   (string \<times> string \<times> (string \<times> string) list) io" where
  "load_loop W n i st t =
     (if i < n
      then (case load_body W i st t of
              (Inl e, t') \<Rightarrow> (Inl e, t')
            | (Inr st', t') \<Rightarrow> load_loop W n (i + 1) st' t')
      else (Inr st, t))"
  by pat_completeness auto
termination
  by (relation "measure (\<lambda>(W, n, i, st, t). n - i)") auto

text \<open>
  Lines 226 to 264 of \<open>RunOnce\<close> for \<open>n\<close> entries (the program runs it with
  \<open>kEntryCount\<close>): the loading loop, the write of a last non-empty batch, the blocking
  flush and the full-range compaction.
\<close>

definition RunOnce_load :: "world \<Rightarrow> nat \<Rightarrow> unit io" where
  "RunOnce_load W n =
     io_bind (load_loop W n 0 (replicate (kKeySize + 1) (CHR 0x00), replicate kValueSize (CHR 0x00), []))
       (\<lambda>(key_buffer, value_buffer, batch).
     io_bind (if length batch > 0
              then io_bind (engine_call W (Write write_options batch))
                     (\<lambda>status. if \<not> ok status
                                then io_throw (RuntimeError (''Write failed: '' @ ToString status))
                                else io_return ())
              else io_return ())
       (\<lambda>_.
     io_bind (engine_call W (Flush \<lparr>wait = True\<rparr>))
       (\<lambda>status.
     if \<not> ok status then io_throw (RuntimeError (''Flush failed: '' @ ToString status))
     else
     io_bind (engine_call W (CompactRange None None))
       (\<lambda>status.
     if \<not> ok status then io_throw (RuntimeError (''CompactRange failed: '' @ ToString status))
     else io_return ()))))"

subsection \<open>Read throughput prober\<close>

definition read_options :: ReadOptions where
  "read_options = \<lparr>fill_cache = False, verify_checksums = False\<rparr>"

text \<open>
  One iteration of the read loop: draw an index, format it, read the key; any status
  other than OK throws. The state is the generator and the key buffer.
\<close>

definition read_body :: "world \<Rightarrow> 'g random_lib \<Rightarrow> 'g \<times> string \<Rightarrow> ('g \<times> string) io" where
  "read_body W L st t =
     (case st of (rng, key_buffer) \<Rightarrow>
        case uniform_int_distribution L 0 (kEntryCount - 1) rng of (key_index, rng) \<Rightarrow>
          let key_buffer = FormatKey key_index key_buffer;
              status = status_of W t (Get read_options (key_slice key_buffer));
              t = t @ [Get read_options (key_slice key_buffer)]
          in if \<not> ok status
             then (Inl (RuntimeError (''Read failed: '' @ ToString status)), t)
             else (Inr (rng, key_buffer), t))"

text \<open>\<^verbatim>\<open>for (uint64_t i = 0; i < read_ops; ++i) { ... }\<close> from counter \<open>i\<close> onwards.\<close>

function read_loop ::
  "world \<Rightarrow> 'g random_lib \<Rightarrow> nat \<Rightarrow> nat \<Rightarrow> 'g \<times> string \<Rightarrow> ('g \<times> string) io" where
  "read_loop W L n i st t =
     (if i < n
      then (case read_body W L st t of
              (Inl e, t') \<Rightarrow> (Inl e, t')
            | (Inr st', t') \<Rightarrow> read_loop W L n (i + 1) st' t')
      else (Inr st, t))"
  by pat_completeness auto
termination
  by (relation "measure (\<lambda>(W, L, n, i, st, t). n - i)") auto

text \<open>
  Lines 200 to 205.
  \<^verbatim>\<open>double seconds = std::chrono::duration<double>(end - start).count();
  if (seconds <= 0.0) seconds = 1e-9;
  stats.ops_per_sec = static_cast<double>(read_ops) / seconds;\<close>
  \<open>end - start\<close> is a count of nanosecond ticks in the clock's signed 64-bit
  representation; its conversion to seconds in \<open>double\<close> is the count converted to
  \<open>double\<close> and divided by \<open>1e9\<close> (libstdc++ and libc++ \<open>duration_cast\<close>).
\<close>

definition throughput :: "u64 \<Rightarrow> int \<Rightarrow> int \<Rightarrow> double" where
  "throughput n start_time end_time =
     (let seconds = double_div (double_of_real (real_of_int (end_time - start_time)))
                      (double_of_real 1000000000);
          seconds = (if double_le seconds (Finite 0) then double_of_real (1 / 1000000000)
                     else seconds)
      in double_div (double_of_real (real (unat n))) seconds)"

definition BenchmarkReads ::
  "world \<Rightarrow> 'g random_lib \<Rightarrow> string \<Rightarrow> Options \<Rightarrow> u64 \<Rightarrow> ReadStats io" where
  "BenchmarkReads W L db_path template_options n =
     (if n = 0 then io_return \<lparr>ops_per_sec = Finite 0\<rparr>
      else
        let options = template_options\<lparr>create_if_missing := False, error_if_exists := False\<rparr>
        in io_bind (engine_call W (OpenForReadOnly options db_path))
             (\<lambda>status.
           if \<not> ok status
           then io_throw (RuntimeError (''Failed to reopen RocksDB for reads at '' @ db_path @
                            '': '' @ ToString status))
           else
             with_db
               (\<lambda>t. let start_time = clock_of W t
                    in io_bind
                         (read_loop W L (unat n) 0
                            (mt19937_64_seed L 0xC0FFEE, replicate (kKeySize + 1) (CHR 0x00)))
                         (\<lambda>_ t'. io_return \<lparr>ops_per_sec = throughput n start_time (clock_of W t')\<rparr> t')
                         t)))"

subsection \<open>One run and the driver\<close>

definition require_property :: "world \<Rightarrow> string \<Rightarrow> u64 io" where
  "require_property W p =
     io_bind (get_property W p)
       (\<lambda>v. case v of
               None \<Rightarrow> io_throw (RuntimeError (''Failed to get '' @ p))
             | Some x \<Rightarrow> io_return x)"

text \<open>
  \<open>RunOnce(cfg, block_size)\<close>: prepare the directory, create the instance, load it,
  query the three properties (a missing one throws), close the instance, run the read
  prober when \<open>read_ops > 0\<close>, and delete the directory unless it is kept. The
  progress line written to \<open>std::cout\<close> before the read prober is not part of the
  model.
\<close>

definition RunOnce :: "world \<Rightarrow> 'g random_lib \<Rightarrow> Config \<Rightarrow> int \<Rightarrow> Result io" where
  "RunOnce W L cfg bs =
     (let db_path = path_append (db_root cfg) (''block_'' @ to_string bs)
      in
      io_bind (fs_call W (CreateDirectories (db_root cfg))) (\<lambda>_.
      io_bind (fs_exists W db_path) (\<lambda>found.
      io_bind (if found then fs_call W (RemoveAll db_path) else io_return ()) (\<lambda>_.
      let options = BuildOptions bs
      in
      io_bind (engine_call W (Open options db_path)) (\<lambda>status.
      if \<not> ok status
      then io_throw (RuntimeError (''Failed to open RocksDB at '' @ db_path @ '': '' @ ToString status))
      else
      io_bind
        (with_db
           (io_bind (RunOnce_load W (unat kEntryCount)) (\<lambda>_.
            io_bind (require_property W ''rocksdb.total-sst-files-size'') (\<lambda>sst.
            io_bind (require_property W ''rocksdb.estimate-num-keys'') (\<lambda>keys.
            io_bind (require_property W ''rocksdb.estimate-table-readers-mem'') (\<lambda>mem.
            io_return
              \<lparr>block_size = bs, total_sst_bytes = sst, estimated_keys = keys,
               table_readers_mem = mem,
               amplification =
                 double_div (double_of_real (real (unat sst)))
                   (double_of_real (real (unat kRawPayloadBytes))),
               read_ops_per_sec = Finite 0\<rparr>))))))
        (\<lambda>result.
      io_bind (if read_ops cfg > 0
               then io_bind (BenchmarkReads W L db_path options (read_ops cfg))
                      (\<lambda>read_stats. io_return (result\<lparr>read_ops_per_sec := ops_per_sec read_stats\<rparr>))
               else io_return result) (\<lambda>result.
      io_bind (if \<not> keep_dbs cfg then fs_call W (RemoveAll db_path) else io_return ()) (\<lambda>_.
      io_return result))))))))"

text \<open>
  \<open>main\<close> after argument parsing (\<open>ParseArguments\<close> fills the \<open>Config\<close>; a block
  size list such as \<open>--block_sizes=4096,0\<close> is accepted by it). The process ends with
  \<open>EXIT_SUCCESS\<close> and the results it tabulates, or with \<open>EXIT_FAILURE\<close> and the line
  it wrote to \<open>std::cerr\<close>.
\<close>

datatype exit = EXIT_SUCCESS "Result list" | EXIT_FAILURE string

fun what :: "error \<Rightarrow> string" where
  "what (RuntimeError m) = m"
| "what (FilesystemError m) = m"

text \<open>
  \<^verbatim>\<open>for (int block_size : cfg.block_sizes) {
    if (block_size <= 0) {
      std::cerr << "Block size must be positive: " << block_size << "\n";
      return EXIT_FAILURE; }
    results.push_back(RunOnce(cfg, block_size)); }\<close>
  over the block sizes still to come; an exception of \<open>RunOnce\<close> is caught by \<open>main\<close>.
\<close>

fun main_loop ::
  "world \<Rightarrow> 'g random_lib \<Rightarrow> Config \<Rightarrow> int list \<Rightarrow> Result list \<Rightarrow> call list \<Rightarrow> exit \<times> call list" where
  "main_loop W L cfg [] results t = (EXIT_SUCCESS results, t)"
| "main_loop W L cfg (bs # rest) results t =
     (if bs \<le> 0
      then (EXIT_FAILURE (''Block size must be positive: '' @ to_string bs), t)
      else (case RunOnce W L cfg bs t of
              (Inl ex, t') \<Rightarrow> (EXIT_FAILURE (''Error: '' @ what ex), t')
            | (Inr r, t') \<Rightarrow> main_loop W L cfg rest (results @ [r]) t'))"

definition main :: "world \<Rightarrow> 'g random_lib \<Rightarrow> Config \<Rightarrow> exit \<times> call list" where
  "main W L cfg = main_loop W L cfg (block_sizes cfg) [] []"

subsection \<open>The intended call sequences\<close>

text \<open>
  The spec describes the loader and the prober by the calls they must make, in order,
  each of which must succeed. \<open>run_calls\<close> issues a list of calls in order and stops at
  the first one that is not answered OK, returning that call and its status;
  \<open>all_ok\<close> says that every call of the list, issued in order after the trace \<open>t\<close>,
  is answered OK.
\<close>

fun run_calls :: "world \<Rightarrow> call list \<Rightarrow> call list \<Rightarrow> (call \<times> status) option \<times> call list" where
  "run_calls W [] t = (None, t)"
| "run_calls W (c # cs) t =
     (if ok (status_of W t c) then run_calls W cs (t @ [c])
      else (Some (c, status_of W t c), t @ [c]))"

fun all_ok :: "world \<Rightarrow> call list \<Rightarrow> call list \<Rightarrow> bool" where
  "all_ok W t [] = True"
| "all_ok W t (c # cs) = (ok (status_of W t c) \<and> all_ok W (t @ [c]) cs)"

text \<open>The generated key and entry of an index, from fresh buffers.\<close>

definition generated_key :: "u64 \<Rightarrow> string" where
  "generated_key i = key_slice (FormatKey i (replicate (kKeySize + 1) (CHR 0x00)))"

definition generated_entry :: "nat \<Rightarrow> string \<times> string" where
  "generated_entry i =
     (generated_key (word_of_nat i),
      take kValueSize (FillValue (word_of_nat i) (replicate kValueSize (CHR 0x00))))"

text \<open>
  Batches of \<open>k\<close>: the full batches of a list, each of exactly \<open>k\<close> consecutive elements,
  and what is left over at the end (fewer than \<open>k\<close> elements, possibly none); the
  batches written are the full ones and the last one when it is not empty.
\<close>

function full_batches :: "nat \<Rightarrow> 'a list \<Rightarrow> 'a list list" where
  "full_batches k xs =
     (if k = 0 \<or> length xs < k then [] else take k xs # full_batches k (drop k xs))"
  by pat_completeness auto
termination
  by (relation "measure (\<lambda>(k, xs). length xs)") auto

function last_batch :: "nat \<Rightarrow> 'a list \<Rightarrow> 'a list" where
  "last_batch k xs = (if k = 0 \<or> length xs < k then xs else last_batch k (drop k xs))"
  by pat_completeness auto
termination
  by (relation "measure (\<lambda>(k, xs). length xs)") auto

definition batches :: "nat \<Rightarrow> 'a list \<Rightarrow> 'a list list" where
  "batches k xs = full_batches k xs @ (if last_batch k xs = [] then [] else [last_batch k xs])"

text \<open>
  The loader's call sequence for \<open>n\<close> entries: every generated entry, in index order, in
  batches of 1000 written with the write-ahead log disabled, then a blocking flush,
  then a full-range compaction.
\<close>

definition bulk_load_script :: "nat \<Rightarrow> call list" where
  "bulk_load_script n =
     map (Write \<lparr>disableWAL = True\<rparr>) (batches 1000 (map generated_entry [0..<n])) @
     [Flush \<lparr>wait = True\<rparr>, CompactRange None None]"

text \<open>The fatal error of a failed call: the operation and the status text.\<close>

fun operation_name :: "call \<Rightarrow> string" where
  "operation_name (Write wo b) = ''Write''"
| "operation_name (Flush fo) = ''Flush''"
| "operation_name (CompactRange a b) = ''CompactRange''"
| "operation_name (Get ro k) = ''Read''"
| "operation_name c = []"

definition failure_message :: "call \<Rightarrow> status \<Rightarrow> string" where
  "failure_message c s = operation_name c @ '' failed: '' @ ToString s"

text \<open>
  The prober's index sequence: \<open>n\<close> successive draws of the distribution over
  \<open>[0, kEntryCount - 1]\<close> from a generator state; and the keys that a trace reads.
\<close>

fun draws :: "'g random_lib \<Rightarrow> nat \<Rightarrow> 'g \<Rightarrow> u64 list" where
  "draws L 0 g = []"
| "draws L (Suc n) g =
     (case uniform_int_distribution L 0 (kEntryCount - 1) g of
        (key_index, g') \<Rightarrow> key_index # draws L n g')"

fun probed_keys :: "call list \<Rightarrow> string list" where
  "probed_keys [] = []"
| "probed_keys (Get ro k # cs) = k # probed_keys cs"
| "probed_keys (c # cs) = probed_keys cs"

definition read_script :: "'g random_lib \<Rightarrow> u64 \<Rightarrow> call list" where
  "read_script L n =
     map (\<lambda>key_index. Get \<lparr>fill_cache = False, verify_checksums = False\<rparr> (generated_key key_index))
       (draws L (unat n) (mt19937_64_seed L 0xC0FFEE))"

text \<open>
  Running a list of block sizes: \<open>RunOnce\<close> for each in turn, every run starting
  from the trace the previous one left, collecting the results, and stopping at the
  first run that throws.
\<close>

fun run_sizes ::
  "world \<Rightarrow> 'g random_lib \<Rightarrow> Config \<Rightarrow> int list \<Rightarrow> Result list io" where
  "run_sizes W L cfg [] t = (Inr [], t)"
| "run_sizes W L cfg (bs # rest) t =
     (case RunOnce W L cfg bs t of
        (Inl ex, t') \<Rightarrow> (Inl ex, t')
      | (Inr r, t') \<Rightarrow>
          (case run_sizes W L cfg rest t' of
             (Inl ex, t'') \<Rightarrow> (Inl ex, t'')
           | (Inr rs, t'') \<Rightarrow> (Inr (r # rs), t'')))"

text \<open>Dropping the final loop state of a computation, or keeping a part of it.\<close>

definition map_result :: "('a \<Rightarrow> 'b) \<Rightarrow> (error + 'a) \<times> call list \<Rightarrow> (error + 'b) \<times> call list" where
  "map_result f r = (case r of (Inl e, t) \<Rightarrow> (Inl e, t) | (Inr x, t) \<Rightarrow> (Inr (f x), t))"

text \<open>Concrete environments used to evaluate the program on examples.\<close>

definition world_ok :: world where
  "world_ok =
     \<lparr>status_of = (\<lambda>t c. OK), exists_of = (\<lambda>t p. False),
      property_of = (\<lambda>t p. Some 4294967296), clock_of = (\<lambda>t. int (length t) * 500000000)\<rparr>"

definition world_missing_keys :: world where
  "world_missing_keys =
     \<lparr>status_of = (\<lambda>t c. case c of Get ro k \<Rightarrow> NotFound ''NotFound: '' | _ \<Rightarrow> OK),
      exists_of = (\<lambda>t p. False),
      property_of = (\<lambda>t p. Some 4294967296), clock_of = (\<lambda>t. 0)\<rparr>"

definition lcg_lib :: "u64 random_lib" where
  "lcg_lib =
     \<lparr>mt19937_64_seed = (\<lambda>s. s),
      uniform_int_distribution =
        (\<lambda>a b g. (a + g mod (b - a + 1), g * 6364136223846793005 + 1442695040888963407))\<rparr>"


section \<open>Properties of the codec\<close>

lemma length_bytes_of_u64: "length (bytes_of_u64 n x) = n"
  by (induction n arbitrary: x) simp_all

lemma u64_of_bytes_of_u64: "u64_of_bytes (bytes_of_u64 n x) = take_bit (8 * n) x"
proof (induction n arbitrary: x)
  case 0
  show ?case by simp
next
  case (Suc n)
  show ?case
    by (rule bit_word_eqI)
       (auto simp add: Suc bit_simps not_less le_diff_conv2 ac_simps)
qed

lemma bytes_of_u64_zero: "bytes_of_u64 n 0 = replicate n 0"
  by (induction n) simp_all

lemma u64_of_bytes_append_zeros:
  "u64_of_bytes (bs @ replicate k 0) = u64_of_bytes bs"
  by (induction bs) (simp_all add: bytes_of_u64_zero [symmetric] u64_of_bytes_of_u64)

lemma byte_or_shift: "(ucast (b::byte) :: u64) OR push_bit 8 w = ucast b + 256 * w"
proof -
  have "(ucast b :: u64) AND push_bit 8 w = 0"
    by (rule bit_word_eqI) (auto simp add: bit_simps dest: bit_imp_le_length)
  then have "(ucast b :: u64) + push_bit 8 w = ucast b OR push_bit 8 w"
    by (rule disjunctive_add_eq_or)
  then show ?thesis by (simp add: push_bit_eq_mult mult.commute)
qed

lemma u64_of_bytes_horner: "u64_of_bytes bs = word_of_nat (horner_sum unat 256 bs)"
  by (induction bs) (simp_all add: byte_or_shift)

lemma horner_bytes_bound: "horner_sum unat 256 (bs :: byte list) < 256 ^ length bs"
proof (induction bs)
  case Nil
  show ?case by simp
next
  case (Cons b bs)
  have "unat b < 256" using unsigned_less [of b] by simp
  with Cons show ?case by simp
qed

lemma unat_u64_of_bytes:
  assumes "length bs \<le> 8"
  shows "unat (u64_of_bytes bs) = horner_sum unat 256 bs"
proof -
  have "horner_sum unat 256 bs < 256 ^ length bs" by (rule horner_bytes_bound)
  also have "(256::nat) ^ length bs \<le> 256 ^ 8"
    using assms by (intro power_increasing) simp_all
  finally have "horner_sum unat 256 bs < 2 ^ 64" by simp
  then show ?thesis by (simp add: u64_of_bytes_horner unsigned_of_nat take_bit_nat_eq_self)
qed

lemma Decode_eq: "Decode s = u64_of_bytes (take 8 s)"
proof -
  have "Decode s = u64_of_bytes (take 8 s @ replicate (8 - min (length s) 8) 0)"
    by (simp add: Decode_def memcpy_def sizeof_uint64_t_def bytes_of_u64_zero Let_def min_def)
  then show ?thesis by (simp only: u64_of_bytes_append_zeros)
qed

lemma Encode_eq: "Encode v = bytes_of_u64 8 v"
  by (simp add: Encode_def memcpy_def sizeof_uint64_t_def length_bytes_of_u64 Let_def)

lemma Decode_Encode: "Decode (Encode v) = v"
  by (simp only: Decode_eq Encode_eq)
     (simp add: length_bytes_of_u64 u64_of_bytes_of_u64 take_bit_word_eq_self)

text \<open>
  C10. The codec round-trips on every 64-bit value, \<open>Encode\<close> always yields exactly
  8 bytes, and \<open>Decode\<close> is total: on any slice its result is the little-endian value of
  the first \<open>min (size, 8)\<close> bytes, which is what decoding the slice padded with zero
  bytes (the missing high bytes) gives.
\<close>

theorem codec_roundtrip_and_short_slices:
  "Decode (Encode v) = v \<and> length (Encode v) = 8 \<and>
   unat (Decode s) = horner_sum unat 256 (take 8 s) \<and>
   Decode s = Decode (take 8 (s @ replicate 8 0))"
proof -
  have b: "length (Encode v) = 8" by (simp only: Encode_eq length_bytes_of_u64)
  have c: "unat (Decode s) = horner_sum unat 256 (take 8 s)"
    by (simp only: Decode_eq) (rule unat_u64_of_bytes, simp)
  have "take 8 (s @ replicate 8 0) = take 8 s @ replicate (8 - length s) (0::byte)"
    by simp
  then have d: "Decode s = Decode (take 8 (s @ replicate 8 0))"
    by (simp add: Decode_eq u64_of_bytes_append_zeros)
  from Decode_Encode b c d show ?thesis by blast
qed

section \<open>Properties of the workload catalog\<close>

lemma SelectWorkloads_unknown:
  assumes "f \<noteq> []" "f \<noteq> ''10/90''" "f \<noteq> ''50/50''" "f \<noteq> ''90/10''"
  shows "SelectWorkloads f = Inl (RuntimeError (''Unknown workload mix filter: '' @ f))"
  using assms by (simp add: SelectWorkloads_def kWorkloads_def)

text \<open>
  C3. \<open>SelectWorkloads\<close> on the exact name \<open>50/50\<close> returns exactly one entry, with
  read ratio 0.50; on the empty string it returns the three catalog entries in catalog
  order; on any other name that is not in the catalog it fails with the error
  \<open>Unknown workload mix filter: <name>\<close>.
\<close>

theorem SelectWorkloads_lookup:
  "SelectWorkloads ''50/50'' = Inr [\<lparr>name = ''50/50'', read_ratio = 0.50\<rparr>] \<and>
   SelectWorkloads [] =
     Inr [\<lparr>name = ''10/90'', read_ratio = 0.10\<rparr>,
          \<lparr>name = ''50/50'', read_ratio = 0.50\<rparr>,
          \<lparr>name = ''90/10'', read_ratio = 0.90\<rparr>] \<and>
   (f \<noteq> [] \<and> f \<notin> {''10/90'', ''50/50'', ''90/10''} \<longrightarrow>
      SelectWorkloads f = Inl (RuntimeError (''Unknown workload mix filter: '' @ f)))"
proof -
  have a: "SelectWorkloads ''50/50'' = Inr [\<lparr>name = ''50/50'', read_ratio = 0.50\<rparr>]"
    by (simp add: SelectWorkloads_def kWorkloads_def)
  have b: "SelectWorkloads [] = Inr kWorkloads"
    by (simp add: SelectWorkloads_def)
  from a b SelectWorkloads_unknown [of f] show ?thesis
    by (simp add: kWorkloads_def)
qed

theorem SelectWorkloads_lookup_witness:
  "''not-a-mix'' \<noteq> [] \<and> ''not-a-mix'' \<notin> {''10/90'', ''50/50'', ''90/10''} \<and>
   SelectWorkloads ''not-a-mix'' = Inl (RuntimeError ''Unknown workload mix filter: not-a-mix'')"
  using SelectWorkloads_lookup [of "''not-a-mix''"] by simp

section \<open>Properties of the merge operator\<close>

lemma foldl_add_Decode:
  "foldl (\<lambda>acc operand. acc + Decode operand) a ops = a + sum_list (map Decode ops)"
  by (induction ops arbitrary: a) (simp_all add: add.assoc)

lemma sum_list_all_ones:
  "\<forall>x\<in>set xs. f x = (1::u64) \<Longrightarrow> sum_list (map f xs) = word_of_nat (length xs)"
  by (induction xs) simp_all

lemma FullMergeV2_eq:
  "FullMergeV2 \<lparr>existing_value = b, operand_list = ops\<rparr> =
     (True, Encode ((case b of None \<Rightarrow> 0 | Some v \<Rightarrow> Decode v) + sum_list (map Decode ops)))"
  by (simp add: FullMergeV2_def foldl_add_Decode split: option.split)

text \<open>
  C2. Full-merge resolution succeeds and returns the encoding of the 64-bit sum of the
  decoded base (0 when absent) and all decoded operands; partial merge always refuses
  and leaves its output untouched. Hence a key whose base decodes to 0 and whose operands
  each decode to 1 resolves to the number of operands.
\<close>

theorem CountMergeOperator_resolution:
  "FullMergeV2 \<lparr>existing_value = b, operand_list = ops\<rparr> =
     (True, Encode ((case b of None \<Rightarrow> 0 | Some v \<Rightarrow> Decode v) + sum_list (map Decode ops))) \<and>
   fst (PartialMerge k l r nv) = False \<and> snd (PartialMerge k l r nv) = nv \<and>
   (Decode b0 = 0 \<and> (\<forall>operand \<in> set ops. Decode operand = 1) \<and> length ops < 2 ^ 64 \<longrightarrow>
      unat (Decode (snd (FullMergeV2 \<lparr>existing_value = Some b0, operand_list = ops\<rparr>))) = length ops)"
proof -
  have "unat (Decode (snd (FullMergeV2 \<lparr>existing_value = Some b0, operand_list = ops\<rparr>))) = length ops"
    if "Decode b0 = 0" "\<forall>operand \<in> set ops. Decode operand = 1" "length ops < 2 ^ 64"
  proof -
    have "Decode (snd (FullMergeV2 \<lparr>existing_value = Some b0, operand_list = ops\<rparr>)) =
          word_of_nat (length ops)"
      using that(1,2) by (simp add: FullMergeV2_eq Decode_Encode sum_list_all_ones)
    with that(3) show ?thesis
      by (simp add: unsigned_of_nat take_bit_nat_eq_self)
  qed
  then show ?thesis
    by (simp add: FullMergeV2_eq PartialMerge_def)
qed

theorem CountMergeOperator_resolution_witness:
  "Decode (Encode 0) = 0 \<and> Decode (Encode 1) = 1 \<and>
   length [Encode 1, Encode 1, Encode 1] < (2::nat) ^ 64 \<and>
   unat (Decode (snd (FullMergeV2 \<lparr>existing_value = Some (Encode 0),
       operand_list = [Encode 1, Encode 1, Encode 1]\<rparr>))) = 3"
  using CountMergeOperator_resolution [of None "[Encode 1, Encode 1, Encode 1]" "[]" "[]" "[]" "[]" "Encode 0"]
  by (simp add: Decode_Encode)

section \<open>Properties of the data generator\<close>

declare dec_digits.simps [simp del]

lemmas char_eval = digit_char_def digit_of_char_def char_of_def bit_Suc_0_iff

lemma digit_of_char_digit_char: "d < 10 \<Longrightarrow> digit_of_char (digit_char d) = Some d"
  by (simp add: digit_of_char_def digit_char_def)

lemma digit_of_char_zero: "digit_of_char (CHR ''0'') = Some 0"
  by (simp add: digit_of_char_def)

lemma parse_decimal_from_append:
  "parse_decimal_from a (xs @ ys) =
     (case parse_decimal_from a xs of None \<Rightarrow> None | Some b \<Rightarrow> parse_decimal_from b ys)"
  by (induction xs arbitrary: a) (simp_all split: option.split)

lemma parse_decimal_from_dec_digits:
  "parse_decimal_from a (dec_digits n) = Some (a * 10 ^ length (dec_digits n) + n)"
proof (induction n arbitrary: a rule: dec_digits.induct)
  case (1 n)
  show ?case
  proof (cases "n < 10")
    case True
    then show ?thesis
      by (simp add: dec_digits.simps [of n] digit_of_char_digit_char)
  next
    case False
    have "parse_decimal_from a (dec_digits n) =
          parse_decimal_from a (dec_digits (n div 10) @ [digit_char (n mod 10)])"
      using False by (simp add: dec_digits.simps [of n])
    also have "\<dots> = Some (10 * (a * 10 ^ length (dec_digits (n div 10)) + n div 10) + n mod 10)"
      using False by (simp add: parse_decimal_from_append "1.IH" digit_of_char_digit_char)
    also have "\<dots> = Some (a * 10 ^ length (dec_digits n) + n)"
      using False by (simp add: dec_digits.simps [of n] algebra_simps)
    finally show ?thesis .
  qed
qed

lemma parse_decimal_from_zeros:
  "parse_decimal_from 0 (replicate k (CHR ''0'')) = Some 0"
  by (induction k) (simp_all add: digit_of_char_zero)

lemma length_dec_digits: "n < 10 ^ k \<Longrightarrow> 0 < k \<Longrightarrow> length (dec_digits n) \<le> k"
proof (induction n arbitrary: k rule: dec_digits.induct)
  case (1 n)
  show ?case
  proof (cases "n < 10")
    case True
    with "1.prems" show ?thesis by (simp add: dec_digits.simps [of n])
  next
    case False
    with "1.prems" obtain k' where k: "k = Suc k'" by (cases k) auto
    with False "1.prems" have "0 < k'" by (cases k') auto
    moreover from "1.prems" k have "n div 10 < 10 ^ k'" by (simp add: less_mult_imp_div_less)
    ultimately have "length (dec_digits (n div 10)) \<le> k'" using False "1.IH" by blast
    with False k show ?thesis by (simp add: dec_digits.simps [of n])
  qed
qed

lemma length_dec_digits_u64: "length (dec_digits (unat (i :: u64))) \<le> 20"
proof -
  have "unat i < 2 ^ 64" using unsigned_less [of i] by simp
  also have "(2::nat) ^ 64 < 10 ^ 20" by simp
  finally show ?thesis by (intro length_dec_digits) simp_all
qed

lemma length_printf_032llu: "length (printf_032llu i) = 32"
  using length_dec_digits_u64 [of i] by (simp add: printf_032llu_def zero_pad_def)

lemma key_slice_FormatKey:
  "length buffer = 33 \<Longrightarrow> key_slice (FormatKey i buffer) = printf_032llu i"
  by (simp add: key_slice_def FormatKey_def snprintf_def kKeySize_def length_printf_032llu Let_def)

lemma parse_decimal_printf: "parse_decimal (printf_032llu i) = Some (unat i)"
proof -
  have "printf_032llu i \<noteq> []" using length_printf_032llu [of i] by auto
  then show ?thesis
    by (simp add: parse_decimal_def)
       (simp add: printf_032llu_def zero_pad_def parse_decimal_from_append
          parse_decimal_from_zeros parse_decimal_from_dec_digits)
qed

text \<open>
  C6. For every 64-bit index (in particular every index below the entry count) and a
  33-byte key buffer, the key handed to the engine has exactly 32 characters, is the
  decimal rendering of the index left-padded with zeros, and reads back as a decimal
  number equal to the index.
\<close>

theorem FormatKey_zero_padded_decimal:
  assumes "length buffer = kKeySize + 1"
  shows "length (key_slice (FormatKey i buffer)) = 32 \<and>
         key_slice (FormatKey i buffer) =
           replicate (32 - length (dec_digits (unat i))) (CHR ''0'') @ dec_digits (unat i) \<and>
         parse_decimal (key_slice (FormatKey i buffer)) = Some (unat i)"
proof -
  from assms have "key_slice (FormatKey i buffer) = printf_032llu i"
    by (simp add: key_slice_FormatKey kKeySize_def)
  then show ?thesis
    by (simp add: length_printf_032llu parse_decimal_printf)
       (simp add: printf_032llu_def zero_pad_def)
qed

theorem FormatKey_zero_padded_decimal_witness:
  "length (replicate 33 (CHR 0x00)) = kKeySize + 1 \<and>
   key_slice (FormatKey 1234567 (replicate 33 (CHR 0x00))) =
     replicate 25 (CHR ''0'') @ ''1234567'' \<and>
   parse_decimal (key_slice (FormatKey 1234567 (replicate 33 (CHR 0x00)))) = Some 1234567"
proof -
  have h: "length (replicate 33 (CHR 0x00)) = kKeySize + 1" by (simp add: kKeySize_def)
  have u: "unat (1234567 :: u64) = 1234567" by simp
  have d: "dec_digits 1234567 = ''1234567''" by (simp add: dec_digits.simps char_eval)
  have e: "replicate (32 - length (dec_digits 1234567)) (CHR ''0'') @ dec_digits 1234567 =
           replicate 25 (CHR ''0'') @ ''1234567''"
    by (simp add: d)
  from FormatKey_zero_padded_decimal [OF h, of 1234567] h show ?thesis
    unfolding u e by blast
qed

declare FillValue_loop.simps [simp del]

lemma length_FillValue_loop: "length (FillValue_loop index i buffer) = length buffer"
proof (induction index i buffer rule: FillValue_loop.induct)
  case (1 index i buffer)
  then show ?case
    by (subst FillValue_loop.simps) simp
qed

lemma nth_FillValue_loop:
  "j < length buffer \<Longrightarrow>
   FillValue_loop index i buffer ! j =
     (if i \<le> j \<and> j < kValueSize
      then char_of (unat ((97 :: u64) + (index + word_of_nat j) mod 26))
      else buffer ! j)"
proof (induction index i buffer rule: FillValue_loop.induct)
  case (1 index i buffer)
  show ?case
  proof (cases "i < kValueSize")
    case True
    show ?thesis
    proof (cases "j = i")
      case True
      with 1 \<open>i < kValueSize\<close> show ?thesis
        by (subst FillValue_loop.simps) simp
    next
      case False
      with 1 \<open>i < kValueSize\<close> show ?thesis
        by (subst FillValue_loop.simps) auto
    qed
  next
    case False
    then show ?thesis
      by (subst FillValue_loop.simps) auto
  qed
qed

lemma value_byte_unat:
  assumes "unat index + j < 2 ^ 64"
  shows "unat ((97 :: u64) + (index + word_of_nat j) mod 26) = 97 + (unat index + j) mod 26"
proof -
  have j: "j < 2 ^ 64" using assms by simp
  have "unat (word_of_nat j :: u64) = j"
    using j by (simp add: unsigned_of_nat take_bit_nat_eq_self)
  then have s: "unat (index + word_of_nat j) = unat index + j"
    using assms by (simp add: unat_word_ariths)
  have m: "unat ((index + word_of_nat j) mod 26) = (unat index + j) mod 26"
    unfolding unat_mod s by simp
  have "(unat index + j) mod 26 < 26" by simp
  then show ?thesis
    unfolding unat_word_ariths(1) m by simp
qed

lemma unat_kEntryCount: "unat kEntryCount = 33554432"
  by (simp add: kEntryCount_def kRawPayloadBytes_def kEntryBytes_def kKeySize_def kValueSize_def)

text \<open>
  C7. For an index below the entry count and a 96-byte value buffer with arbitrary
  previous contents, the byte at every offset \<open>j < 96\<close> is \<open>'a' + ((i + j) mod 26)\<close>;
  the result has 96 bytes and does not depend on the previous contents of the buffer,
  so a repeated call with the same index gives the same value.
\<close>

theorem FillValue_cyclic_alphabet:
  assumes "index < kEntryCount" and "length buffer = kValueSize" and "length buffer' = kValueSize"
  shows "length (FillValue index buffer) = 96 \<and>
         (\<forall>j < 96. FillValue index buffer ! j = char_of (97 + (unat index + j) mod 26)) \<and>
         FillValue index buffer' = FillValue index buffer"
proof -
  have idx: "unat index < 33554432"
    using assms(1) by (simp add: word_less_nat_alt unat_kEntryCount)
  have nth: "FillValue index b ! j = char_of (97 + (unat index + j) mod 26)"
    if "length b = kValueSize" "j < 96" for b j
  proof -
    from idx that(2) have "unat index + j < 2 ^ 64" by simp
    then show ?thesis
      using that by (simp add: FillValue_def nth_FillValue_loop kValueSize_def value_byte_unat)
  qed
  have len: "length (FillValue index b) = 96" if "length b = kValueSize" for b
    using that by (simp add: FillValue_def length_FillValue_loop kValueSize_def)
  have "FillValue index buffer' = FillValue index buffer"
    by (rule nth_equalityI) (simp_all add: len nth assms)
  with len [OF assms(2)] nth [OF assms(2)] show ?thesis by blast
qed

theorem FillValue_cyclic_alphabet_witness:
  "(30 :: u64) < kEntryCount \<and> length (replicate 96 (CHR 0x00)) = kValueSize \<and>
   length (replicate 96 (CHR ''x'')) = kValueSize \<and>
   FillValue 30 (replicate 96 (CHR 0x00)) ! 5 = CHR ''j'' \<and>
   FillValue 30 (replicate 96 (CHR ''x'')) = FillValue 30 (replicate 96 (CHR 0x00))"
proof -
  have a: "(30 :: u64) < kEntryCount"
    by (simp add: word_less_nat_alt unat_kEntryCount)
  have b: "length (replicate 96 (CHR 0x00)) = kValueSize" by (simp add: kValueSize_def)
  have c: "length (replicate 96 (CHR ''x'')) = kValueSize" by (simp add: kValueSize_def)
  from FillValue_cyclic_alphabet [OF a b c] a b c show ?thesis
    by (simp add: char_eval)
qed

section \<open>Call sequences\<close>

lemma run_calls_append:
  "run_calls W (xs @ ys) t =
     (case run_calls W xs t of (None, t') \<Rightarrow> run_calls W ys t' | (Some f, t') \<Rightarrow> (Some f, t'))"
  by (induction xs arbitrary: t) simp_all

lemma run_calls_all_ok: "all_ok W t cs \<Longrightarrow> run_calls W cs t = (None, t @ cs)"
  by (induction cs arbitrary: t) simp_all

lemma run_calls_first_failure:
  "\<not> all_ok W t cs \<Longrightarrow>
   \<exists>k<length cs. all_ok W t (take k cs) \<and> \<not> ok (status_of W (t @ take k cs) (cs ! k)) \<and>
     run_calls W cs t = (Some (cs ! k, status_of W (t @ take k cs) (cs ! k)), t @ take (Suc k) cs)"
proof (induction cs arbitrary: t)
  case Nil
  then show ?case by simp
next
  case (Cons c cs)
  show ?case
  proof (cases "ok (status_of W t c)")
    case False
    then have "all_ok W t (take 0 (c # cs)) \<and> \<not> ok (status_of W (t @ take 0 (c # cs)) ((c # cs) ! 0)) \<and>
      run_calls W (c # cs) t =
        (Some ((c # cs) ! 0, status_of W (t @ take 0 (c # cs)) ((c # cs) ! 0)), t @ take (Suc 0) (c # cs))"
      by simp
    then show ?thesis by blast
  next
    case True
    with Cons.prems have "\<not> all_ok W (t @ [c]) cs" by simp
    from Cons.IH [OF this] obtain k where k: "k < length cs"
      "all_ok W (t @ [c]) (take k cs)"
      "\<not> ok (status_of W ((t @ [c]) @ take k cs) (cs ! k))"
      "run_calls W cs (t @ [c]) =
         (Some (cs ! k, status_of W ((t @ [c]) @ take k cs) (cs ! k)), (t @ [c]) @ take (Suc k) cs)"
      by blast
    with True have "Suc k < length (c # cs) \<and> all_ok W t (take (Suc k) (c # cs)) \<and>
      \<not> ok (status_of W (t @ take (Suc k) (c # cs)) ((c # cs) ! Suc k)) \<and>
      run_calls W (c # cs) t =
        (Some ((c # cs) ! Suc k, status_of W (t @ take (Suc k) (c # cs)) ((c # cs) ! Suc k)),
         t @ take (Suc (Suc k)) (c # cs))"
      by simp
    then show ?thesis by blast
  qed
qed

lemma all_ok_always: "(\<And>t c. status_of W t c = OK) \<Longrightarrow> all_ok W t cs"
  by (induction cs arbitrary: t) (simp_all add: ok_def)

section \<open>Batches\<close>

declare full_batches.simps [simp del] last_batch.simps [simp del]

lemma batches_short:
  "length xs < k \<Longrightarrow> full_batches k xs = [] \<and> last_batch k xs = xs"
  by (simp add: full_batches.simps [of k xs] last_batch.simps [of k xs])

lemma batches_full_prefix:
  "length xs = k \<Longrightarrow> 0 < k \<Longrightarrow>
   full_batches k (xs @ ys) = xs # full_batches k ys \<and> last_batch k (xs @ ys) = last_batch k ys"
  by (simp add: full_batches.simps [of k "xs @ ys"] last_batch.simps [of k "xs @ ys"])

lemma concat_full_batches: "concat (full_batches k xs) @ last_batch k xs = xs"
proof (induction k xs rule: full_batches.induct)
  case (1 k xs)
  show ?case
  proof (cases "k = 0 \<or> length xs < k")
    case True
    then show ?thesis by (simp add: full_batches.simps [of k xs] last_batch.simps [of k xs])
  next
    case False
    with 1 have "concat (full_batches k (drop k xs)) @ last_batch k (drop k xs) = drop k xs"
      by simp
    with False show ?thesis
      by (simp add: full_batches.simps [of k xs] last_batch.simps [of k xs])
  qed
qed

lemma length_full_batches: "b \<in> set (full_batches k xs) \<Longrightarrow> length b = k"
proof (induction k xs rule: full_batches.induct)
  case (1 k xs)
  show ?case
  proof (cases "k = 0 \<or> length xs < k")
    case True
    with "1.prems" show ?thesis by (simp add: full_batches.simps [of k xs])
  next
    case False
    with "1.prems" have "b = take k xs \<or> b \<in> set (full_batches k (drop k xs))"
      by (simp add: full_batches.simps [of k xs])
    with False "1.IH" show ?thesis by auto
  qed
qed

lemma length_last_batch: "0 < k \<Longrightarrow> length (last_batch k xs) < k"
proof (induction k xs rule: last_batch.induct)
  case (1 k xs)
  show ?case
  proof (cases "length xs < k")
    case True
    then show ?thesis by (simp add: last_batch.simps [of k xs])
  next
    case False
    with 1 show ?thesis by (simp add: last_batch.simps [of k xs])
  qed
qed

lemma concat_batches: "concat (batches k xs) = xs"
  using concat_full_batches [of k xs] by (auto simp add: batches_def)

lemma length_batches:
  "0 < k \<Longrightarrow> b \<in> set (batches k xs) \<Longrightarrow> 0 < length b \<and> length b \<le> k"
  using length_last_batch [of k xs]
  by (auto simp add: batches_def dest: length_full_batches split: if_splits)

lemma length_butlast_batches: "b \<in> set (butlast (batches k xs)) \<Longrightarrow> length b = k"
  by (auto simp add: batches_def butlast_append dest: length_full_batches in_set_butlastD
      split: if_splits)

section \<open>The bulk loader follows its call sequence\<close>

lemma length_FormatKey: "length buffer = 33 \<Longrightarrow> length (FormatKey i buffer) = 33"
  by (simp add: FormatKey_def snprintf_def length_printf_032llu Let_def)

lemma key_slice_generated:
  "length buffer = 33 \<Longrightarrow> key_slice (FormatKey i buffer) = generated_key i"
  by (simp add: generated_key_def key_slice_FormatKey kKeySize_def)

lemma FillValue_any_buffer:
  assumes "length b = kValueSize" "length b' = kValueSize"
  shows "FillValue i b = FillValue i b'"
proof (rule nth_equalityI)
  show "length (FillValue i b) = length (FillValue i b')"
    using assms by (simp add: FillValue_def length_FillValue_loop)
next
  fix j
  assume "j < length (FillValue i b)"
  with assms have "j < kValueSize" by (simp add: FillValue_def length_FillValue_loop)
  with assms show "FillValue i b ! j = FillValue i b' ! j"
    by (simp add: FillValue_def nth_FillValue_loop)
qed

lemma length_FillValue: "length (FillValue i b) = length b"
  by (simp add: FillValue_def length_FillValue_loop)

lemma value_slice_generated:
  "length b = 96 \<Longrightarrow>
   take kValueSize (FillValue (word_of_nat i) b) = snd (generated_entry i)"
  using FillValue_any_buffer [of b "replicate kValueSize (CHR 0x00)" "word_of_nat i"]
  by (simp add: generated_entry_def kValueSize_def)

lemma load_body_eq:
  assumes "length kb = 33" "length vb = 96"
  shows "load_body W i (kb, vb, batch) t =
     (if length batch + 1 \<ge> 1000
      then (if ok (status_of W t (Write write_options (batch @ [generated_entry i])))
            then (Inr (FormatKey (word_of_nat i) kb, FillValue (word_of_nat i) vb, []),
                  t @ [Write write_options (batch @ [generated_entry i])])
            else (Inl (RuntimeError (failure_message (Write write_options (batch @ [generated_entry i]))
                         (status_of W t (Write write_options (batch @ [generated_entry i]))))),
                  t @ [Write write_options (batch @ [generated_entry i])]))
      else (Inr (FormatKey (word_of_nat i) kb, FillValue (word_of_nat i) vb,
                 batch @ [generated_entry i]), t))"
proof -
  have e: "(key_slice (FormatKey (word_of_nat i) kb), take kValueSize (FillValue (word_of_nat i) vb)) =
           generated_entry i"
    using assms key_slice_generated [of kb "word_of_nat i"] value_slice_generated [of vb i]
    by (simp add: generated_entry_def)
  show ?thesis
    by (simp add: load_body_def Let_def e batch_size_def failure_message_def)
qed

declare load_loop.simps [simp del]

lemma load_loop_script:
  assumes "length kb = 33" "length vb = 96" "length batch < 1000"
  shows "map_result (\<lambda>(kb, vb, b). b) (load_loop W n i (kb, vb, batch) t) =
     (case run_calls W
             (map (Write write_options) (full_batches 1000 (batch @ map generated_entry [i..<n]))) t of
        (None, t') \<Rightarrow> (Inr (last_batch 1000 (batch @ map generated_entry [i..<n])), t')
      | (Some (c, s), t') \<Rightarrow> (Inl (RuntimeError (failure_message c s)), t'))"
  using assms
proof (induction "n - i" arbitrary: i kb vb batch t)
  case 0
  then have "\<not> i < n" by simp
  then have l: "load_loop W n i (kb, vb, batch) t = (Inr (kb, vb, batch), t)"
    by (simp add: load_loop.simps [of W n i])
  from \<open>\<not> i < n\<close> have e: "batch @ map generated_entry [i..<n] = batch" by simp
  show ?case
    unfolding e l using batches_short [of batch 1000] "0.prems" by (simp add: map_result_def)
next
  case (Suc m)
  then have lt: "i < n" and m: "m = n - (i + 1)" by simp_all
  let ?kb = "FormatKey (word_of_nat i) kb" and ?vb = "FillValue (word_of_nat i) vb"
  let ?b = "batch @ [generated_entry i]"
  have len: "length ?kb = 33" "length ?vb = 96"
    using Suc.prems by (simp_all add: length_FormatKey length_FillValue)
  have pend: "batch @ map generated_entry [i..<n] = ?b @ map generated_entry [i + 1..<n]"
    using lt by (simp add: upt_conv_Cons)
  note body = load_body_eq [OF Suc.prems(1,2), of W i batch t]
  show ?case
  proof (cases "length batch + 1 \<ge> 1000")
    case False
    then have b: "length ?b < 1000" by simp
    from False body lt have
      "load_loop W n i (kb, vb, batch) t = load_loop W n (i + 1) (?kb, ?vb, ?b) t"
      by (simp add: load_loop.simps [of W n i])
    with Suc.hyps(1) [OF m len b, of t] show ?thesis
      by (simp only: pend)
  next
    case True
    with Suc.prems have full: "length ?b = 1000" by simp
    note split = batches_full_prefix [OF full, of "map generated_entry [i + 1..<n]"]
    show ?thesis
    proof (cases "ok (status_of W t (Write write_options ?b))")
      case False
      with True body lt have
        "load_loop W n i (kb, vb, batch) t =
           (Inl (RuntimeError (failure_message (Write write_options ?b)
                   (status_of W t (Write write_options ?b)))), t @ [Write write_options ?b])"
        by (simp add: load_loop.simps [of W n i])
      with False split show ?thesis
        by (simp only: pend) (simp add: map_result_def)
    next
      case ok: True
      with True body lt have
        "load_loop W n i (kb, vb, batch) t =
           load_loop W n (i + 1) (?kb, ?vb, []) (t @ [Write write_options ?b])"
        by (simp add: load_loop.simps [of W n i])
      with Suc.hyps(1) [OF m len, of "[]" "t @ [Write write_options ?b]"] ok split show ?thesis
        by (simp only: pend) (simp split: prod.splits option.splits)
    qed
  qed
qed

lemma io_bind_map_result:
  "io_bind m (\<lambda>(kb, vb, b). f b) t =
     (case map_result (\<lambda>(kb, vb, b). b) (m t) of
        (Inl e, t') \<Rightarrow> (Inl e, t')
      | (Inr b, t') \<Rightarrow> f b t')"
  by (simp add: io_bind_def map_result_def split: prod.splits sum.splits)

lemma RunOnce_load_script:
  "RunOnce_load W n t =
     (case run_calls W (bulk_load_script n) t of
        (None, t') \<Rightarrow> (Inr (), t')
      | (Some (c, s), t') \<Rightarrow> (Inl (RuntimeError (failure_message c s)), t'))"
proof -
  let ?es = "map generated_entry [0..<n]"
  have loop: "map_result (\<lambda>(kb, vb, b). b)
      (load_loop W n 0 (replicate (kKeySize + 1) (CHR 0x00), replicate kValueSize (CHR 0x00), []) t) =
     (case run_calls W (map (Write write_options) (full_batches 1000 ?es)) t of
        (None, t') \<Rightarrow> (Inr (last_batch 1000 ?es), t')
      | (Some (c, s), t') \<Rightarrow> (Inl (RuntimeError (failure_message c s)), t'))"
    using load_loop_script [of "replicate (kKeySize + 1) (CHR 0x00)" "replicate kValueSize (CHR 0x00)" "[]" W n 0 t]
    unfolding append_Nil by (simp add: kKeySize_def kValueSize_def)
  show ?thesis
    unfolding RunOnce_load_def io_bind_map_result loop
    by (simp add: bulk_load_script_def batches_def run_calls_append write_options_def
        io_bind_def io_return_def io_throw_def engine_call_def failure_message_def
        split: prod.splits option.splits)
qed

lemma all_ok_world_ok: "all_ok world_ok t cs"
  by (rule all_ok_always) (simp add: world_ok_def)

lemma bulk_load_script_2:
  "bulk_load_script 2 =
     [Write \<lparr>disableWAL = True\<rparr> [generated_entry 0, generated_entry 1],
      Flush \<lparr>wait = True\<rparr>, CompactRange None None]"
proof -
  have "[0..<2] = [0, Suc 0]" by (simp add: upt_rec)
  then show ?thesis
    by (simp add: bulk_load_script_def batches_def full_batches.simps last_batch.simps)
qed

text \<open>
  C8. The loader makes exactly the calls of its call sequence, in order: one write per
  batch of the generated entries, with the write-ahead log disabled, then the blocking
  flush, then the full-range compaction. The batches are consecutive, cover every
  entry once and in order, hold 1000 entries each except a shorter last one, and are
  never empty. If every call is answered OK the loader returns after the whole
  sequence; otherwise it stops at the first call that fails and throws the error that
  names the operation and carries the status text.
\<close>

theorem bulk_loader_batches_then_flush_then_compact:
  "(all_ok W t (bulk_load_script n) \<longrightarrow>
      RunOnce_load W n t = (Inr (), t @ bulk_load_script n)) \<and>
   (\<not> all_ok W t (bulk_load_script n) \<longrightarrow>
      (\<exists>k<length (bulk_load_script n).
         all_ok W t (take k (bulk_load_script n)) \<and>
         \<not> ok (status_of W (t @ take k (bulk_load_script n)) (bulk_load_script n ! k)) \<and>
         RunOnce_load W n t =
           (Inl (RuntimeError
                  (failure_message (bulk_load_script n ! k)
                     (status_of W (t @ take k (bulk_load_script n)) (bulk_load_script n ! k)))),
            t @ take (Suc k) (bulk_load_script n)))) \<and>
   bulk_load_script n =
     map (Write write_options) (batches batch_size (map generated_entry [0..<n])) @
     [Flush \<lparr>wait = True\<rparr>, CompactRange None None] \<and>
   disableWAL write_options \<and>
   concat (batches batch_size (map generated_entry [0..<n])) = map generated_entry [0..<n] \<and>
   (\<forall>b \<in> set (batches batch_size (map generated_entry [0..<n])). 0 < length b \<and> length b \<le> 1000) \<and>
   (\<forall>b \<in> set (butlast (batches batch_size (map generated_entry [0..<n]))). length b = 1000)"
proof -
  have a: "RunOnce_load W n t = (Inr (), t @ bulk_load_script n)"
    if "all_ok W t (bulk_load_script n)"
    using run_calls_all_ok [OF that] by (simp add: RunOnce_load_script)
  have b: "\<exists>k<length (bulk_load_script n).
         all_ok W t (take k (bulk_load_script n)) \<and>
         \<not> ok (status_of W (t @ take k (bulk_load_script n)) (bulk_load_script n ! k)) \<and>
         RunOnce_load W n t =
           (Inl (RuntimeError
                  (failure_message (bulk_load_script n ! k)
                     (status_of W (t @ take k (bulk_load_script n)) (bulk_load_script n ! k)))),
            t @ take (Suc k) (bulk_load_script n))"
    if "\<not> all_ok W t (bulk_load_script n)"
  proof -
    from run_calls_first_failure [OF that] obtain k where k:
      "k < length (bulk_load_script n)"
      "all_ok W t (take k (bulk_load_script n))"
      "\<not> ok (status_of W (t @ take k (bulk_load_script n)) (bulk_load_script n ! k))"
      "run_calls W (bulk_load_script n) t =
         (Some (bulk_load_script n ! k,
                status_of W (t @ take k (bulk_load_script n)) (bulk_load_script n ! k)),
          t @ take (Suc k) (bulk_load_script n))"
      by blast
    from k(4) have "RunOnce_load W n t =
           (Inl (RuntimeError
                  (failure_message (bulk_load_script n ! k)
                     (status_of W (t @ take k (bulk_load_script n)) (bulk_load_script n ! k)))),
            t @ take (Suc k) (bulk_load_script n))"
      by (simp add: RunOnce_load_script)
    with k(1-3) show ?thesis by blast
  qed
  have c: "bulk_load_script n =
     map (Write write_options) (batches batch_size (map generated_entry [0..<n])) @
     [Flush \<lparr>wait = True\<rparr>, CompactRange None None]"
    by (simp add: bulk_load_script_def write_options_def batch_size_def)
  have d: "disableWAL write_options" by (simp add: write_options_def)
  have e: "\<forall>b \<in> set (batches batch_size (map generated_entry [0..<n])). 0 < length b \<and> length b \<le> 1000"
    using length_batches [of 1000] by (auto simp add: batch_size_def)
  have f: "\<forall>b \<in> set (butlast (batches batch_size (map generated_entry [0..<n]))). length b = 1000"
    using length_butlast_batches [of _ 1000] by (auto simp add: batch_size_def)
  from a b c d e f concat_batches [of batch_size "map generated_entry [0..<n]"]
  show ?thesis by blast
qed

theorem bulk_loader_batches_then_flush_then_compact_witness:
  "all_ok world_ok [] (bulk_load_script (unat kEntryCount)) \<and>
   RunOnce_load world_ok (unat kEntryCount) [] = (Inr (), bulk_load_script (unat kEntryCount)) \<and>
   all_ok world_ok [] (bulk_load_script 2) \<and>
   RunOnce_load world_ok 2 [] =
     (Inr (), [Write \<lparr>disableWAL = True\<rparr> [generated_entry 0, generated_entry 1],
               Flush \<lparr>wait = True\<rparr>, CompactRange None None])"
proof -
  have ok1: "all_ok world_ok [] (bulk_load_script (unat kEntryCount))"
    and ok2: "all_ok world_ok [] (bulk_load_script 2)"
    by (rule all_ok_world_ok)+
  from bulk_loader_batches_then_flush_then_compact [of world_ok "[]" "unat kEntryCount"] ok1
  have r1: "RunOnce_load world_ok (unat kEntryCount) [] = (Inr (), [] @ bulk_load_script (unat kEntryCount))"
    by blast
  from bulk_loader_batches_then_flush_then_compact [of world_ok "[]" 2] ok2
  have r2: "RunOnce_load world_ok 2 [] = (Inr (), [] @ bulk_load_script 2)"
    by blast
  from ok1 ok2 r1 r2 show ?thesis
    by (simp only: bulk_load_script_2 append_Nil)
qed

section \<open>The read prober follows its call sequence\<close>

lemma read_body_eq:
  assumes "length kb = 33"
  shows "read_body W L (g, kb) t =
     (case uniform_int_distribution L 0 (kEntryCount - 1) g of
        (key_index, g') \<Rightarrow>
          if ok (status_of W t (Get read_options (generated_key key_index)))
          then (Inr (g', FormatKey key_index kb), t @ [Get read_options (generated_key key_index)])
          else (Inl (RuntimeError (''Read failed: '' @
                       ToString (status_of W t (Get read_options (generated_key key_index))))),
                t @ [Get read_options (generated_key key_index)]))"
  using assms
  by (simp add: read_body_def Let_def key_slice_generated split: prod.splits)

declare read_loop.simps [simp del]

lemma read_loop_script:
  assumes "length kb = 33"
  shows "map_result (\<lambda>st. ()) (read_loop W L n i (g, kb) t) =
     (case run_calls W (map (\<lambda>key_index. Get read_options (generated_key key_index))
                          (draws L (n - i) g)) t of
        (None, t') \<Rightarrow> (Inr (), t')
      | (Some (c, s), t') \<Rightarrow> (Inl (RuntimeError (''Read failed: '' @ ToString s)), t'))"
  using assms
proof (induction "n - i" arbitrary: i g kb t)
  case 0
  then have "\<not> i < n" by simp
  then have "read_loop W L n i (g, kb) t = (Inr (g, kb), t)"
    by (simp add: read_loop.simps [of W L n i])
  with 0 show ?case by (simp add: map_result_def)
next
  case (Suc m)
  then have lt: "i < n" and m: "m = n - (i + 1)" and d: "n - i = Suc m" by simp_all
  obtain key_index g' where u: "uniform_int_distribution L 0 (kEntryCount - 1) g = (key_index, g')"
    by (cases "uniform_int_distribution L 0 (kEntryCount - 1) g")
  let ?c = "Get read_options (generated_key key_index)"
  have len: "length (FormatKey key_index kb) = 33"
    using Suc.prems by (simp add: length_FormatKey)
  note body = read_body_eq [OF Suc.prems, of W L g t]
  show ?case
  proof (cases "ok (status_of W t ?c)")
    case False
    with body u lt have
      "read_loop W L n i (g, kb) t =
         (Inl (RuntimeError (''Read failed: '' @ ToString (status_of W t ?c))), t @ [?c])"
      by (simp add: read_loop.simps [of W L n i])
    with False u show ?thesis
      by (simp add: d map_result_def)
  next
    case True
    with body u lt have
      "read_loop W L n i (g, kb) t = read_loop W L n (i + 1) (g', FormatKey key_index kb) (t @ [?c])"
      by (simp add: read_loop.simps [of W L n i])
    with Suc.hyps(1) [OF m len, of g' "t @ [?c]"] True u m show ?thesis
      by (simp add: d)
  qed
qed

lemma io_bind_discard:
  "io_bind m (\<lambda>_. f) t =
     (case map_result (\<lambda>st. ()) (m t) of
        (Inl e, t') \<Rightarrow> (Inl e, t')
      | (Inr _, t') \<Rightarrow> f t')"
  by (simp add: io_bind_def map_result_def split: prod.splits sum.splits)

lemma read_script_eq:
  "read_script L n =
     map (\<lambda>key_index. Get read_options (generated_key key_index))
       (draws L (unat n) (mt19937_64_seed L 0xC0FFEE))"
  by (simp add: read_script_def read_options_def)

lemma BenchmarkReads_script:
  assumes "n \<noteq> 0"
  shows "BenchmarkReads W L p opts n t =
     (if \<not> ok (status_of W t (OpenForReadOnly (opts\<lparr>create_if_missing := False, error_if_exists := False\<rparr>) p))
      then (Inl (RuntimeError (''Failed to reopen RocksDB for reads at '' @ p @ '': '' @
              ToString (status_of W t
                 (OpenForReadOnly (opts\<lparr>create_if_missing := False, error_if_exists := False\<rparr>) p)))),
            t @ [OpenForReadOnly (opts\<lparr>create_if_missing := False, error_if_exists := False\<rparr>) p])
      else
        (case run_calls W (read_script L n)
                (t @ [OpenForReadOnly (opts\<lparr>create_if_missing := False, error_if_exists := False\<rparr>) p]) of
           (None, t') \<Rightarrow>
             (Inr \<lparr>ops_per_sec =
                    throughput n
                      (clock_of W (t @ [OpenForReadOnly
                         (opts\<lparr>create_if_missing := False, error_if_exists := False\<rparr>) p]))
                      (clock_of W t')\<rparr>,
              t' @ [Close])
         | (Some (c, s), t') \<Rightarrow>
             (Inl (RuntimeError (''Read failed: '' @ ToString s)), t' @ [Close])))"
proof -
  have loop: "map_result (\<lambda>st. ())
       (read_loop W L (unat n) 0 (mt19937_64_seed L 0xC0FFEE, replicate 33 (CHR 0x00)) t0) =
     (case run_calls W (read_script L n) t0 of
        (None, t') \<Rightarrow> (Inr (), t')
      | (Some (c, s), t') \<Rightarrow> (Inl (RuntimeError (''Read failed: '' @ ToString s)), t'))" for t0
    using read_loop_script [of "replicate 33 (CHR 0x00)" W L "unat n" 0 _ t0]
    by (simp add: read_script_eq)
  show ?thesis
    using assms
    unfolding BenchmarkReads_def Let_def io_bind_discard
    by (simp add: io_bind_def engine_call_def io_throw_def with_db_def io_return_def
        io_bind_discard kKeySize_def loop split: prod.splits option.splits)
qed

lemma run_calls_trace:
  "run_calls W cs t = (r, t') \<Longrightarrow>
   \<exists>m \<le> length cs. t' = t @ take m cs \<and> (r = None \<longrightarrow> m = length cs)"
proof (induction cs arbitrary: t)
  case Nil
  then show ?case by simp
next
  case (Cons c cs)
  show ?case
  proof (cases "ok (status_of W t c)")
    case False
    with Cons.prems have "t' = t @ take (Suc 0) (c # cs) \<and> r \<noteq> None" by auto
    then show ?thesis by (intro exI [of _ "Suc 0"]) auto
  next
    case True
    with Cons.prems have "run_calls W cs (t @ [c]) = (r, t')" by simp
    from Cons.IH [OF this] obtain m where
      "m \<le> length cs" "t' = (t @ [c]) @ take m cs" "r = None \<longrightarrow> m = length cs" by blast
    then show ?thesis by (intro exI [of _ "Suc m"]) simp
  qed
qed

lemma probed_keys_append: "probed_keys (xs @ ys) = probed_keys xs @ probed_keys ys"
  by (induction xs rule: probed_keys.induct) simp_all

lemma probed_keys_gets: "probed_keys (map (\<lambda>k. Get ro (f k)) ks) = map f ks"
  by (induction ks) simp_all

lemma length_draws: "length (draws L n g) = n"
  by (induction n arbitrary: g) (simp_all split: prod.splits)

lemma length_read_script: "length (read_script L n) = unat n"
  by (simp add: read_script_def length_draws)

lemma draws_in_range:
  assumes "\<And>g. fst (uniform_int_distribution L 0 (kEntryCount - 1) g) \<le> kEntryCount - 1"
  shows "i \<in> set (draws L n g) \<Longrightarrow> i < kEntryCount"
proof (induction n arbitrary: g)
  case 0
  then show ?case by simp
next
  case (Suc n)
  obtain k g' where u: "uniform_int_distribution L 0 (kEntryCount - 1) g = (k, g')"
    by (cases "uniform_int_distribution L 0 (kEntryCount - 1) g")
  have pos: "0 < kEntryCount" by (simp add: word_less_nat_alt unat_kEntryCount)
  from assms [of g] u have "k \<le> kEntryCount - 1" by simp
  with pos have "k < kEntryCount"
    by (simp add: word_less_nat_alt word_le_nat_alt unat_kEntryCount unat_sub_if')
  with Suc u show ?case by auto
qed

lemma populated_all_ok:
  assumes "\<And>t' i. i \<in> set ks \<Longrightarrow> ok (status_of W t' (Get ro (f i)))"
  shows "all_ok W t (map (\<lambda>k. Get ro (f k)) ks)"
  using assms by (induction ks arbitrary: t) simp_all

lemma not_found_not_ok: "\<not> ok (NotFound m)"
  by (simp add: ok_def)

text \<open>
  C4. With a read-op count \<open>n > 0\<close> and the database reopened, the prober makes the
  \<open>n\<close> point reads of its call sequence and closes the database. It returns
  statistics exactly when every read is answered OK; otherwise it stops at the first
  read that is not (a not-found status is not OK) and throws \<open>Read failed: <status>\<close>.
  When every key below the entry count is present and the distribution stays within
  its bounds, every read is answered OK, so exactly \<open>n\<close> reads are issued.
\<close>

theorem read_prober_every_read_must_succeed:
  assumes "n \<noteq> 0"
    and "ok (status_of W t (OpenForReadOnly (opts\<lparr>create_if_missing := False, error_if_exists := False\<rparr>) p))"
    and "t0 = t @ [OpenForReadOnly (opts\<lparr>create_if_missing := False, error_if_exists := False\<rparr>) p]"
  shows "length (read_script L n) = unat n \<and>
    (all_ok W t0 (read_script L n) \<longrightarrow>
       (\<exists>stats. BenchmarkReads W L p opts n t = (Inr stats, t0 @ read_script L n @ [Close]))) \<and>
    (\<not> all_ok W t0 (read_script L n) \<longrightarrow>
       (\<exists>k<unat n.
          all_ok W t0 (take k (read_script L n)) \<and>
          \<not> ok (status_of W (t0 @ take k (read_script L n)) (read_script L n ! k)) \<and>
          BenchmarkReads W L p opts n t =
            (Inl (RuntimeError (''Read failed: '' @
                    ToString (status_of W (t0 @ take k (read_script L n)) (read_script L n ! k)))),
             t0 @ take (Suc k) (read_script L n) @ [Close]))) \<and>
    (\<forall>m. \<not> ok (NotFound m)) \<and>
    ((\<forall>g. fst (uniform_int_distribution L 0 (kEntryCount - 1) g) \<le> kEntryCount - 1) \<and>
     (\<forall>t' i. i < kEntryCount \<longrightarrow> ok (status_of W t' (Get read_options (generated_key i)))) \<longrightarrow>
       all_ok W t0 (read_script L n))"
proof -
  note script = BenchmarkReads_script [OF assms(1), of W L p opts t]
  have a: "\<exists>stats. BenchmarkReads W L p opts n t = (Inr stats, t0 @ read_script L n @ [Close])"
    if "all_ok W t0 (read_script L n)"
    using run_calls_all_ok [OF that] assms(2,3) by (simp add: script)
  have b: "\<exists>k<unat n.
          all_ok W t0 (take k (read_script L n)) \<and>
          \<not> ok (status_of W (t0 @ take k (read_script L n)) (read_script L n ! k)) \<and>
          BenchmarkReads W L p opts n t =
            (Inl (RuntimeError (''Read failed: '' @
                    ToString (status_of W (t0 @ take k (read_script L n)) (read_script L n ! k)))),
             t0 @ take (Suc k) (read_script L n) @ [Close])"
    if "\<not> all_ok W t0 (read_script L n)"
  proof -
    from run_calls_first_failure [OF that] obtain k where k:
      "k < length (read_script L n)"
      "all_ok W t0 (take k (read_script L n))"
      "\<not> ok (status_of W (t0 @ take k (read_script L n)) (read_script L n ! k))"
      "run_calls W (read_script L n) t0 =
         (Some (read_script L n ! k, status_of W (t0 @ take k (read_script L n)) (read_script L n ! k)),
          t0 @ take (Suc k) (read_script L n))"
      by blast
    from k(4) assms(2,3) have "BenchmarkReads W L p opts n t =
            (Inl (RuntimeError (''Read failed: '' @
                    ToString (status_of W (t0 @ take k (read_script L n)) (read_script L n ! k)))),
             t0 @ take (Suc k) (read_script L n) @ [Close])"
      by (simp add: script)
    with k(1-3) show ?thesis by (auto simp add: length_read_script)
  qed
  have c: "all_ok W t0 (read_script L n)"
    if r: "\<forall>g. fst (uniform_int_distribution L 0 (kEntryCount - 1) g) \<le> kEntryCount - 1"
    and f: "\<forall>t' i. i < kEntryCount \<longrightarrow> ok (status_of W t' (Get read_options (generated_key i)))"
    unfolding read_script_eq
  proof (rule populated_all_ok)
    fix t' i
    assume "i \<in> set (draws L (unat n) (mt19937_64_seed L 0xC0FFEE))"
    then have "i < kEntryCount" using r by (intro draws_in_range) auto
    with f show "ok (status_of W t' (Get read_options (generated_key i)))" by simp
  qed
  from a b c length_read_script [of L n] not_found_not_ok show ?thesis by blast
qed

section \<open>Rounding keeps a number between the powers of two around it\<close>

declare binade_ge1.simps [simp del]

lemma binade_ge1_bracket:
  "1 \<le> x \<Longrightarrow> 2 ^ binade_ge1 x \<le> x \<and> x < 2 ^ Suc (binade_ge1 x)"
proof (induction x rule: binade_ge1.induct)
  case (1 x)
  show ?case
  proof (cases "x < 2")
    case True
    with "1.prems" show ?thesis by (simp add: binade_ge1.simps [of x])
  next
    case False
    then have "1 \<le> x / 2" by simp
    with False "1.IH" have "2 ^ binade_ge1 (x / 2) \<le> x / 2 \<and> x / 2 < 2 ^ Suc (binade_ge1 (x / 2))"
      by simp
    with False show ?thesis by (simp add: binade_ge1.simps [of x])
  qed
qed

lemma binade_lt1_ge1: "1 \<le> x \<Longrightarrow> binade_lt1 k x = 0"
  by (cases k) simp_all

lemma binade_lt1_bracket:
  "x < 1 \<Longrightarrow> 1 \<le> x * 2 ^ k \<Longrightarrow>
   1 \<le> x * 2 ^ binade_lt1 k x \<and> x * 2 ^ binade_lt1 k x < 2"
proof (induction k arbitrary: x)
  case 0
  then show ?case by simp
next
  case (Suc k)
  show ?case
  proof (cases "1 \<le> 2 * x")
    case True
    with Suc.prems show ?thesis by (simp add: binade_lt1_ge1)
  next
    case False
    then have "2 * x < 1" by simp
    moreover from Suc.prems have "1 \<le> (2 * x) * 2 ^ k" by (simp add: mult.assoc mult.left_commute)
    ultimately have "1 \<le> (2 * x) * 2 ^ binade_lt1 k (2 * x) \<and> (2 * x) * 2 ^ binade_lt1 k (2 * x) < 2"
      by (rule Suc.IH)
    with Suc.prems show ?thesis by (simp add: mult.assoc mult.left_commute)
  qed
qed

lemma pow2_less_imp: "(2::real) powi a < 2 powi b \<Longrightarrow> a < b"
  using power_int_increasing [of b a "2::real"] by (cases "a < b") simp_all

lemma pow2_le_imp: "(2::real) powi a \<le> 2 powi b \<Longrightarrow> a \<le> b"
  using power_int_strict_increasing [of b a "2::real"] by (cases "a \<le> b") simp_all

lemma exponent_bracket:
  assumes "2 powi (- 1022) \<le> x"
  shows "2 powi exponent x \<le> x \<and> x < 2 powi (exponent x + 1)"
proof (cases "1 \<le> x")
  case True
  from binade_ge1_bracket [OF True] True show ?thesis
    by (simp add: exponent_def power_int_add)
next
  case False
  then have lt: "x < 1" by simp
  from assms have "1 \<le> x * 2 ^ 1022"
    by (simp add: power_int_minus field_simps)
  from binade_lt1_bracket [OF lt this] obtain j where j: "j = binade_lt1 1022 x"
    "1 \<le> x * 2 ^ j" "x * 2 ^ j < 2" by blast
  have p1: "2 powi (- int j) = 1 / (2::real) ^ j" by (simp add: power_int_minus field_simps)
  have "2 powi (- int j + 1) = 2 powi (- int j) * (2::real) powi 1"
    by (rule power_int_add) simp
  then have p2: "2 powi (- int j + 1) = 2 / (2::real) ^ j"
    by (simp only: p1) simp
  have a: "1 / 2 ^ j \<le> x" using j(2) by (simp add: pos_divide_le_eq)
  have b: "x < 2 / 2 ^ j" using j(3) by (simp add: pos_less_divide_eq)
  have ex: "exponent x = - int j" using False j(1) by (simp add: exponent_def)
  show ?thesis unfolding ex p1 p2 using a b ..
qed

lemma divide_eq_factor: "0 < u \<Longrightarrow> x = c * u \<Longrightarrow> x / u = (c::real)"
  by simp

lemma round_half_even_bounds:
  "\<lfloor>q\<rfloor> \<le> round_half_even q \<and> round_half_even q \<le> \<lfloor>q\<rfloor> + 1"
  by (simp add: round_half_even_def Let_def)

lemma round_half_even_of_int: "round_half_even (of_int z) = z"
  by (simp add: round_half_even_def Let_def)

lemma round_magnitude_bracket:
  assumes "2 powi a \<le> x" "x \<le> 2 powi b" "- 1022 \<le> a"
  shows "2 powi a \<le> round_magnitude x \<and> round_magnitude x \<le> 2 powi b"
proof -
  let ?e = "exponent x"
  let ?ulp = "(2::real) powi (?e - 52)"
  let ?q = "x / ?ulp"
  let ?m = "round_half_even ?q"
  have "(2::real) powi (- 1022) \<le> 2 powi a"
    using assms(3) by (intro power_int_increasing) simp_all
  with assms(1) have "2 powi (- 1022) \<le> x" by linarith
  from exponent_bracket [OF this] have e: "2 powi ?e \<le> x" "x < 2 powi (?e + 1)" by simp_all
  have ulp: "0 < ?ulp" by simp
  have pe: "2 powi ?e = 2 ^ 52 * ?ulp" "2 powi (?e + 1) = 2 ^ 53 * ?ulp"
    by (simp_all add: power_int_diff power_int_add)
  from e(1) assms(1) have ae: "a \<le> ?e"
  proof -
    from assms(1) e(2) have "(2::real) powi a < 2 powi (?e + 1)" by linarith
    then have "a < ?e + 1" by (rule pow2_less_imp)
    then show ?thesis by simp
  qed
  from e(1) assms(2) have "(2::real) powi ?e \<le> 2 powi b" by linarith
  then have eb: "?e \<le> b" by (rule pow2_le_imp)
  have q: "2 ^ 52 \<le> ?q" "?q < 2 ^ 53"
    using e ulp unfolding pe by (simp_all add: field_simps)
  from q(1) have "(2 ^ 52 :: int) \<le> \<lfloor>?q\<rfloor>" by (simp add: le_floor_iff)
  moreover from q(2) have "\<lfloor>?q\<rfloor> < (2 ^ 53 :: int)" by (simp add: floor_less_iff)
  ultimately have m: "2 ^ 52 \<le> ?m" "?m \<le> 2 ^ 53"
    using round_half_even_bounds [of ?q] by linarith+
  have r: "round_magnitude x = of_int ?m * ?ulp"
    by (simp add: round_magnitude_def Let_def)
  from m(1) have "(2 ^ 52 :: real) \<le> of_int ?m"
    by (metis of_int_le_iff of_int_numeral of_int_power)
  with ulp have "2 ^ 52 * ?ulp \<le> of_int ?m * ?ulp" by simp
  then have lo: "2 powi ?e \<le> round_magnitude x" by (simp only: pe r)
  have "(2::real) powi a \<le> 2 powi ?e"
    using ae by (intro power_int_increasing) simp_all
  with lo have lower: "2 powi a \<le> round_magnitude x" by linarith
  have upper: "round_magnitude x \<le> 2 powi b"
  proof (cases "?e = b")
    case True
    with e(1) assms(2) have "x = 2 powi ?e" by simp
    then have "x = 2 ^ 52 * ?ulp" by (simp only: pe)
    with ulp have "?q = 2 ^ 52" by (rule divide_eq_factor)
    then have "?q = of_int (2 ^ 52)" by simp
    then have "?m = 2 ^ 52" by (simp only: round_half_even_of_int)
    then have "round_magnitude x = 2 powi ?e" by (simp add: r pe)
    with True show ?thesis by simp
  next
    case False
    with eb have "?e + 1 \<le> b" by simp
    then have "(2::real) powi (?e + 1) \<le> 2 powi b"
      by (intro power_int_increasing) simp_all
    moreover from m(2) have "of_int ?m \<le> (2 ^ 53 :: real)"
      by (metis of_int_le_iff of_int_numeral of_int_power)
    with ulp have "of_int ?m * ?ulp \<le> 2 ^ 53 * ?ulp" by simp
    then have "round_magnitude x \<le> 2 powi (?e + 1)" by (simp only: pe r)
    ultimately show ?thesis by linarith
  qed
  from lower upper show ?thesis ..
qed

lemma double_of_real_bracket:
  assumes "2 powi a \<le> x" "x \<le> 2 powi b" "- 1022 \<le> a" "b \<le> 1023"
  shows "\<exists>v. double_of_real x = Finite v \<and> 2 powi a \<le> v \<and> v \<le> 2 powi b"
proof -
  have pos: "0 < x" using assms(1) by (smt (verit) zero_less_power_int zero_less_numeral)
  from round_magnitude_bracket [OF assms(1-3)] have
    m: "2 powi a \<le> round_magnitude x" "round_magnitude x \<le> 2 powi b" by simp_all
  have "(2::real) powi b < 2 powi 1024"
    using assms(4) by (intro power_int_strict_increasing) simp_all
  with m(2) have fin: "\<not> 2 powi 1024 \<le> round_magnitude x" by linarith
  have "(0::real) < 2 powi a" by simp
  with m(1) have nz: "round_magnitude x \<noteq> 0" by linarith
  from pos fin nz have "double_of_real x = Finite (round_magnitude x)"
    by (simp add: double_of_real_def Let_def)
  with m show ?thesis by blast
qed

lemma double_of_real_bracket_neg:
  assumes "2 powi a \<le> - x" "- x \<le> 2 powi b" "- 1022 \<le> a" "b \<le> 1023"
  shows "\<exists>v. double_of_real x = Finite (- v) \<and> 2 powi a \<le> v \<and> v \<le> 2 powi b"
proof -
  have "(0::real) < 2 powi a" by simp
  with assms(1) have neg: "x < 0" by linarith
  then have abs: "\<bar>x\<bar> = - x" by simp
  from round_magnitude_bracket [OF assms(1-3)] have
    m: "2 powi a \<le> round_magnitude (- x)" "round_magnitude (- x) \<le> 2 powi b" by simp_all
  have "(2::real) powi b < 2 powi 1024"
    using assms(4) by (intro power_int_strict_increasing) simp_all
  with m(2) have fin: "\<not> 2 powi 1024 \<le> round_magnitude (- x)" by linarith
  from \<open>(0::real) < 2 powi a\<close> m(1) have nz: "round_magnitude (- x) \<noteq> 0" by linarith
  from neg fin nz have "double_of_real x = Finite (- round_magnitude (- x))"
    by (simp add: double_of_real_def Let_def abs)
  with m show ?thesis by blast
qed

lemma double_div_finite:
  "x \<noteq> 0 \<Longrightarrow> y \<noteq> 0 \<Longrightarrow> double_div (Finite x) (Finite y) = double_of_real (x / y)"
  by (simp add: double_div_def)

lemma double_of_real_1e9: "double_of_real 1000000000 = Finite 1000000000"
  by (simp add: double_of_real_def round_magnitude_def exponent_def binade_ge1.simps
      round_half_even_def Let_def)

lemma pow2_bounds_1e9: "(2::real) powi 29 \<le> 1000000000" "(1000000000::real) \<le> 2 powi 30"
  by simp_all

lemma literal_1e_9:
  "\<exists>d. double_of_real (1 / 1000000000) = Finite d \<and> 2 powi (- 30) \<le> d \<and> d \<le> 2 powi (- 29)"
proof -
  have a: "(2::real) powi (- 30) \<le> 1 / 1000000000" by (simp add: power_int_minus field_simps)
  have b: "(1::real) / 1000000000 \<le> 2 powi (- 29)" by (simp add: power_int_minus field_simps)
  from double_of_real_bracket [OF a b] show ?thesis by simp
qed

lemma seconds_positive:
  assumes "1 \<le> c" "c < 2 ^ 63"
  shows "\<exists>d. double_div (double_of_real (real_of_int c)) (double_of_real 1000000000) = Finite d \<and>
             2 powi (- 30) \<le> d \<and> d \<le> 2 powi 34"
proof -
  have "(2::real) powi 0 \<le> real_of_int c" using assms(1) by simp
  moreover have "real_of_int c \<le> 2 powi 63"
  proof -
    from assms(2) have "c \<le> 2 ^ 63" by simp
    then have "real_of_int c \<le> real_of_int (2 ^ 63)" by (simp only: of_int_le_iff)
    then show ?thesis by simp
  qed
  ultimately obtain c' where c': "double_of_real (real_of_int c) = Finite c'"
    "2 powi 0 \<le> c'" "c' \<le> 2 powi 63"
    using double_of_real_bracket [of 0 "real_of_int c" 63] by auto
  then have c1: "1 \<le> c'" "c' \<le> 2 ^ 63" by simp_all
  have lo: "2 powi (- 30) \<le> c' / 1000000000"
  proof -
    have "(2::real) powi (- 30) \<le> 1 / 1000000000" by (simp add: power_int_minus field_simps)
    also have "\<dots> \<le> c' / 1000000000" using c1(1) by (simp add: divide_right_mono)
    finally show ?thesis .
  qed
  have hi: "c' / 1000000000 \<le> 2 powi 34"
  proof -
    have "c' / 1000000000 \<le> 2 ^ 63 / 1000000000" using c1(2) by (simp add: divide_right_mono)
    also have "\<dots> \<le> (2::real) powi 34" by simp
    finally show ?thesis .
  qed
  from double_of_real_bracket [OF lo hi] obtain d where
    "double_of_real (c' / 1000000000) = Finite d" "2 powi (- 30) \<le> d" "d \<le> 2 powi 34" by auto
  moreover from c1(1) have "c' \<noteq> 0" by simp
  ultimately show ?thesis
    by (simp add: c'(1) double_of_real_1e9 double_div_finite)
qed

lemma seconds_not_positive:
  assumes "c \<le> 0" "- (2 ^ 63) \<le> c"
  shows "double_le (double_div (double_of_real (real_of_int c)) (double_of_real 1000000000)) (Finite 0)"
proof (cases "c = 0")
  case True
  have "double_of_real 0 = Finite 0" by (simp add: double_of_real_def)
  with True show ?thesis
    by (simp add: double_of_real_1e9 double_div_def double_le_def)
next
  case False
  with assms(1) have "c \<le> - 1" by simp
  then have "(2::real) powi 0 \<le> - real_of_int c" by simp
  moreover have "- real_of_int c \<le> 2 powi 63"
  proof -
    from assms(2) have "- c \<le> 2 ^ 63" by simp
    then have "real_of_int (- c) \<le> real_of_int (2 ^ 63)" by (simp only: of_int_le_iff)
    then show ?thesis by simp
  qed
  ultimately obtain c' where c': "double_of_real (real_of_int c) = Finite (- c')"
    "2 powi 0 \<le> c'" "c' \<le> 2 powi 63"
    using double_of_real_bracket_neg [of 0 "real_of_int c" 63] by auto
  then have c1: "1 \<le> c'" "c' \<le> 2 ^ 63" by simp_all
  have lo: "2 powi (- 30) \<le> - (- c' / 1000000000)"
  proof -
    have "(2::real) powi (- 30) \<le> 1 / 1000000000" by (simp add: power_int_minus field_simps)
    also have "\<dots> \<le> c' / 1000000000" using c1(1) by (simp add: divide_right_mono)
    finally show ?thesis by simp
  qed
  have hi: "- (- c' / 1000000000) \<le> 2 powi 34"
  proof -
    have "c' / 1000000000 \<le> 2 ^ 63 / 1000000000" using c1(2) by (simp add: divide_right_mono)
    also have "\<dots> \<le> (2::real) powi 34" by simp
    finally show ?thesis by simp
  qed
  from double_of_real_bracket_neg [OF lo hi] obtain d where
    d: "double_of_real (- c' / 1000000000) = Finite (- d)" "2 powi (- 30) \<le> d" by auto
  have "(0::real) < 2 powi (- 30)" by simp
  with d(2) have "0 < d" by linarith
  moreover from c1(1) have "- c' \<noteq> 0" by simp
  ultimately show ?thesis
    using d(1) by (simp add: c'(1) double_of_real_1e9 double_div_finite double_le_def)
qed

lemma double_of_u64_bracket:
  assumes "n \<noteq> (0 :: u64)"
  shows "\<exists>v. double_of_real (real (unat n)) = Finite v \<and> 1 \<le> v \<and> v \<le> 2 ^ 64"
proof -
  from assms have "1 \<le> unat n" by (simp add: unat_gt_0 Suc_le_eq)
  then have "real 1 \<le> real (unat n)" by (simp only: of_nat_le_iff)
  then have lo: "(2::real) powi 0 \<le> real (unat n)" by simp
  have "unat n < 2 ^ 64" using unsigned_less [of n] by simp
  then have "unat n \<le> 2 ^ 64" by simp
  then have "real (unat n) \<le> real (2 ^ 64)" by (simp only: of_nat_le_iff)
  then have hi: "real (unat n) \<le> 2 powi 64" by simp
  from double_of_real_bracket [OF lo hi] show ?thesis by auto
qed

lemma throughput_finite_positive:
  assumes "n \<noteq> 0" "- (2 ^ 63) \<le> e - s" "e - s < 2 ^ 63"
  shows "\<exists>d v.
     (if e - s \<le> 0 then double_of_real (1 / 1000000000)
      else double_div (double_of_real (real_of_int (e - s))) (double_of_real 1000000000)) = Finite d \<and>
     2 powi (- 30) \<le> d \<and> d \<le> 2 powi 34 \<and>
     throughput n s e = double_div (double_of_real (real (unat n))) (Finite d) \<and>
     throughput n s e = Finite v \<and> 0 < v \<and> 2 powi (- 34) \<le> v \<and> v \<le> 2 powi 94"
proof -
  let ?sec = "double_div (double_of_real (real_of_int (e - s))) (double_of_real 1000000000)"
  let ?div = "if e - s \<le> 0 then double_of_real (1 / 1000000000) else ?sec"
  obtain d where d: "?div = Finite d" "2 powi (- 30) \<le> d" "d \<le> 2 powi 34"
  proof (cases "e - s \<le> 0")
    case True
    from literal_1e_9 obtain d where "double_of_real (1 / 1000000000) = Finite d"
      "2 powi (- 30) \<le> d" "d \<le> 2 powi (- 29)" by blast
    moreover have "(2::real) powi (- 29) \<le> 2 powi 34" by (intro power_int_increasing) simp_all
    ultimately show ?thesis using True that [of d] by simp
  next
    case False
    then have "1 \<le> e - s" by simp
    from seconds_positive [OF this assms(3)] False that show ?thesis by auto
  qed
  have t: "throughput n s e = double_div (double_of_real (real (unat n))) (Finite d)"
  proof (cases "e - s \<le> 0")
    case True
    with seconds_not_positive [OF True assms(2)] d(1) show ?thesis
      by (simp add: throughput_def Let_def)
  next
    case False
    have "(0::real) < 2 powi (- 30)" by simp
    with d(2) have "0 < d" by linarith
    with False d(1) show ?thesis
      by (simp add: throughput_def Let_def double_le_def)
  qed
  from double_of_u64_bracket [OF assms(1)] obtain n' where
    n': "double_of_real (real (unat n)) = Finite n'" "1 \<le> n'" "n' \<le> 2 ^ 64" by blast
  have "(0::real) < 2 powi (- 30)" by simp
  with d(2) have dpos: "0 < d" by linarith
  have lo: "2 powi (- 34) \<le> n' / d"
  proof -
    have "2 powi (- 34) = 1 / (2::real) powi 34" by (simp add: power_int_minus field_simps)
    also have "\<dots> \<le> 1 / d" using d(3) dpos by (intro divide_left_mono) simp_all
    also have "\<dots> \<le> n' / d" using n'(2) dpos by (simp add: divide_right_mono)
    finally show ?thesis .
  qed
  have hi: "n' / d \<le> 2 powi 94"
  proof -
    have "n' / d \<le> 2 ^ 64 / d" using n'(3) dpos by (simp add: divide_right_mono)
    also have "\<dots> \<le> 2 ^ 64 / 2 powi (- 30)"
      using d(2) by (intro divide_left_mono) simp_all
    also have "\<dots> = (2::real) powi 94" by (simp add: power_int_minus field_simps)
    finally show ?thesis .
  qed
  from double_of_real_bracket [OF lo hi] obtain v where
    v: "double_of_real (n' / d) = Finite v" "2 powi (- 34) \<le> v" "v \<le> 2 powi 94" by auto
  have "(0::real) < 2 powi (- 34)" by simp
  with v(2) have vpos: "0 < v" by linarith
  from n'(2) dpos have "n' \<noteq> 0" "d \<noteq> 0" by simp_all
  then have "throughput n s e = Finite v"
    by (simp only: t n'(1)) (simp add: double_div_finite v(1))
  with d t v vpos show ?thesis by blast
qed

lemma binade_lt1_numeral:
  "binade_lt1 (numeral k) x = (if 1 \<le> x then 0 else Suc (binade_lt1 (pred_numeral k) (2 * x)))"
  by (simp add: numeral_eq_Suc)

lemmas double_eval = double_div_def double_le_def double_of_real_def round_magnitude_def
  exponent_def binade_ge1.simps binade_lt1_numeral round_half_even_def Let_def

section \<open>The reported throughput\<close>

text \<open>
  C5. When the prober succeeds with a read-op count \<open>n > 0\<close>, whatever elapsed tick
  count the clock measured (any value of its signed 64-bit representation), the
  reported value is the binary64 quotient of \<open>n\<close> by a divisor that is the elapsed
  time in seconds when that is positive and the floor \<open>1e-9\<close> otherwise. The divisor is
  finite and at least \<open>2^-30\<close> (about \<open>0.93e-9\<close>), so no division by zero or by a
  number near zero occurs, and the reported value is finite and positive, between
  \<open>2^-34\<close> and \<open>2^94\<close>.
\<close>

theorem read_prober_throughput_is_finite_and_positive:
  assumes "n \<noteq> 0" and "BenchmarkReads W L p opts n t = (Inr stats, t')"
    and "t0 = t @ [OpenForReadOnly (opts\<lparr>create_if_missing := False, error_if_exists := False\<rparr>) p]"
    and "elapsed = clock_of W (t0 @ read_script L n) - clock_of W t0"
    and "- (2 ^ 63) \<le> elapsed" and "elapsed < 2 ^ 63"
  shows "\<exists>d v.
     (if elapsed \<le> 0 then double_of_real (1 / 1000000000)
      else double_div (double_of_real (real_of_int elapsed)) (double_of_real 1000000000)) = Finite d \<and>
     2 powi (- 30) \<le> d \<and> d \<le> 2 powi 34 \<and>
     ops_per_sec stats = double_div (double_of_real (real (unat n))) (Finite d) \<and>
     ops_per_sec stats = Finite v \<and> 0 < v \<and> 2 powi (- 34) \<le> v \<and> v \<le> 2 powi 94"
proof -
  note script = BenchmarkReads_script [OF assms(1), of W L p opts t]
  from assms(2) script have opened:
    "ok (status_of W t (OpenForReadOnly (opts\<lparr>create_if_missing := False, error_if_exists := False\<rparr>) p))"
    by (auto split: if_splits)
  obtain r t1 where run: "run_calls W (read_script L n) t0 = (r, t1)"
    by (cases "run_calls W (read_script L n) t0")
  with assms(2,3) script opened have "r = None"
    by (cases r) (auto split: if_splits)
  with run_calls_trace [OF run] have t1: "t1 = t0 @ read_script L n" by auto
  from assms(2,3) script opened run \<open>r = None\<close> t1
  have s: "ops_per_sec stats = throughput n (clock_of W t0) (clock_of W (t0 @ read_script L n))"
    by auto
  from throughput_finite_positive [OF assms(1), of "clock_of W (t0 @ read_script L n)" "clock_of W t0"]
    assms(5,6)
  show ?thesis unfolding s assms(4) by simp
qed

lemma BenchmarkReads_always_ok:
  assumes "\<And>t c. status_of W t c = OK" and "n \<noteq> 0"
  shows "BenchmarkReads W L p opts n t =
     (Inr \<lparr>ops_per_sec =
             throughput n
               (clock_of W (t @ [OpenForReadOnly (opts\<lparr>create_if_missing := False, error_if_exists := False\<rparr>) p]))
               (clock_of W (t @ [OpenForReadOnly (opts\<lparr>create_if_missing := False, error_if_exists := False\<rparr>) p] @
                  read_script L n))\<rparr>,
      t @ [OpenForReadOnly (opts\<lparr>create_if_missing := False, error_if_exists := False\<rparr>) p] @
      read_script L n @ [Close])"
proof -
  have o: "ok (status_of W t c)" for t c by (simp add: assms(1) ok_def)
  have a: "all_ok W t cs" for t cs by (rule all_ok_always) (rule assms(1))
  show ?thesis
    unfolding BenchmarkReads_script [OF assms(2)]
    by (simp add: o run_calls_all_ok [OF a])
qed

lemma BenchmarkReads_world_ok:
  assumes "n \<noteq> 0"
  shows "BenchmarkReads world_ok L p opts n t =
     (Inr \<lparr>ops_per_sec =
             throughput n (500000000 * (int (length t) + 1))
               (500000000 * (int (length t) + 1 + int (unat n)))\<rparr>,
      t @ [OpenForReadOnly (opts\<lparr>create_if_missing := False, error_if_exists := False\<rparr>) p] @
      read_script L n @ [Close])"
proof -
  have o: "status_of world_ok t c = OK" for t c by (simp add: world_ok_def)
  have c: "clock_of world_ok t = int (length t) * 500000000" for t by (simp add: world_ok_def)
  show ?thesis
    unfolding BenchmarkReads_always_ok [of world_ok, OF o assms]
    by (simp add: c length_read_script algebra_simps)
qed

lemma status_world_missing_keys:
  "k < unat n \<Longrightarrow> status_of world_missing_keys t (read_script L n ! k) = NotFound ''NotFound: ''"
  by (simp add: read_script_eq length_draws world_missing_keys_def)

lemma not_all_ok_world_missing_keys:
  assumes "n \<noteq> 0"
  shows "\<not> all_ok world_missing_keys t (read_script L n)"
proof -
  from assms obtain m where "unat n = Suc m"
    by (cases "unat n") (simp_all add: unat_eq_0)
  then show ?thesis
    by (simp add: read_script_eq world_missing_keys_def ok_def split: prod.splits)
qed

theorem read_prober_every_read_must_succeed_witness:
  "(2 :: u64) \<noteq> 0 \<and>
   ok (status_of world_ok []
         (OpenForReadOnly ((BuildOptions 4096)\<lparr>create_if_missing := False, error_if_exists := False\<rparr>) ''db'')) \<and>
   length (read_script lcg_lib 2) = unat (2 :: u64) \<and>
   all_ok world_ok
     [OpenForReadOnly ((BuildOptions 4096)\<lparr>create_if_missing := False, error_if_exists := False\<rparr>) ''db'']
     (read_script lcg_lib 2) \<and>
   (\<exists>stats. BenchmarkReads world_ok lcg_lib ''db'' (BuildOptions 4096) 2 [] =
      (Inr stats,
       [OpenForReadOnly ((BuildOptions 4096)\<lparr>create_if_missing := False, error_if_exists := False\<rparr>) ''db''] @
       read_script lcg_lib 2 @ [Close])) \<and>
   \<not> all_ok world_missing_keys
     [OpenForReadOnly ((BuildOptions 4096)\<lparr>create_if_missing := False, error_if_exists := False\<rparr>) ''db'']
     (read_script lcg_lib 2) \<and>
   fst (BenchmarkReads world_missing_keys lcg_lib ''db'' (BuildOptions 4096) 2 []) =
     Inl (RuntimeError ''Read failed: NotFound: '')"
proof -
  let ?o = "OpenForReadOnly ((BuildOptions 4096)\<lparr>create_if_missing := False, error_if_exists := False\<rparr>) ''db''"
  have n: "(2 :: u64) \<noteq> 0" by simp
  have o: "ok (status_of world_ok [] ?o)"
    by (simp add: world_ok_def ok_def)
  have o': "ok (status_of world_missing_keys [] ?o)"
    by (simp add: world_missing_keys_def ok_def)
  have t0: "[?o] = [] @ [?o]"
    by simp
  have miss: "\<not> all_ok world_missing_keys [?o] (read_script lcg_lib 2)"
    by (rule not_all_ok_world_missing_keys [OF n])
  from read_prober_every_read_must_succeed [OF n o' t0, of lcg_lib] miss
  obtain k where "k < unat (2 :: u64)"
    "BenchmarkReads world_missing_keys lcg_lib ''db'' (BuildOptions 4096) 2 [] =
       (Inl (RuntimeError (''Read failed: '' @
          ToString (status_of world_missing_keys ([?o] @ take k (read_script lcg_lib 2))
             (read_script lcg_lib 2 ! k)))),
        [?o] @ take (Suc k) (read_script lcg_lib 2) @ [Close])"
    by blast
  then have f: "fst (BenchmarkReads world_missing_keys lcg_lib ''db'' (BuildOptions 4096) 2 []) =
     Inl (RuntimeError ''Read failed: NotFound: '')"
    by (simp only: status_world_missing_keys fst_conv ToString.simps) simp
  from read_prober_every_read_must_succeed [OF n o t0, of lcg_lib] n o all_ok_world_ok miss f
  show ?thesis by blast
qed

text \<open>
  Two runs of two reads. The first measures one second and reports 2 reads per second.
  The second measures no elapsed time at all: the floor \<open>1e-9\<close> applies, and the
  quotient \<open>2 / 1e-9\<close> in binary64 is \<open>1999999999.9999998\<close>, not \<open>2e9\<close>.
\<close>

theorem read_prober_throughput_is_finite_and_positive_witness:
  "(2 :: u64) \<noteq> 0 \<and>
   BenchmarkReads world_ok lcg_lib ''db'' (BuildOptions 4096) 2 [] =
     (Inr \<lparr>ops_per_sec = Finite 2\<rparr>,
      [OpenForReadOnly ((BuildOptions 4096)\<lparr>create_if_missing := False, error_if_exists := False\<rparr>) ''db''] @
      read_script lcg_lib 2 @ [Close]) \<and>
   (\<exists>d v. double_div (double_of_real 1000000000) (double_of_real 1000000000) = Finite d \<and>
      2 powi (- 30) \<le> d \<and> d \<le> 2 powi 34 \<and>
      Finite 2 = double_div (double_of_real (real (unat (2 :: u64)))) (Finite d) \<and>
      Finite 2 = Finite v \<and> 0 < v \<and> 2 powi (- 34) \<le> v \<and> v \<le> 2 powi 94) \<and>
   BenchmarkReads (world_ok\<lparr>clock_of := \<lambda>t. 5000\<rparr>) lcg_lib ''db'' (BuildOptions 4096) 2 [] =
     (Inr \<lparr>ops_per_sec = Finite (8388607999999999 / 4194304)\<rparr>,
      [OpenForReadOnly ((BuildOptions 4096)\<lparr>create_if_missing := False, error_if_exists := False\<rparr>) ''db''] @
      read_script lcg_lib 2 @ [Close])"
proof -
  let ?o = "OpenForReadOnly ((BuildOptions 4096)\<lparr>create_if_missing := False, error_if_exists := False\<rparr>) ''db''"
  have n: "(2 :: u64) \<noteq> 0" by simp
  have t2: "throughput 2 500000000 1500000000 = Finite 2"
    by (simp add: throughput_def double_eval)
  have t0: "throughput 2 5000 5000 = Finite (8388607999999999 / 4194304)"
    by (simp add: throughput_def double_eval)
  have r: "BenchmarkReads world_ok lcg_lib ''db'' (BuildOptions 4096) 2 [] =
     (Inr \<lparr>ops_per_sec = Finite 2\<rparr>, [] @ [?o] @ read_script lcg_lib 2 @ [Close])"
    unfolding BenchmarkReads_world_ok [OF n] by (simp add: t2)
  have e: "clock_of world_ok (([] @ [?o]) @ read_script lcg_lib 2) - clock_of world_ok ([] @ [?o]) =
           1000000000"
    by (simp add: world_ok_def length_read_script)
  have o: "status_of (world_ok\<lparr>clock_of := \<lambda>t. 5000\<rparr>) t c = OK" for t c
    by (simp add: world_ok_def)
  have r0: "BenchmarkReads (world_ok\<lparr>clock_of := \<lambda>t. 5000\<rparr>) lcg_lib ''db'' (BuildOptions 4096) 2 [] =
     (Inr \<lparr>ops_per_sec = Finite (8388607999999999 / 4194304)\<rparr>,
      [?o] @ read_script lcg_lib 2 @ [Close])"
    unfolding BenchmarkReads_always_ok [of "world_ok\<lparr>clock_of := \<lambda>t. 5000\<rparr>", OF o n]
    by (simp add: t0)
  from read_prober_throughput_is_finite_and_positive [OF n r refl e [symmetric]]
  have "\<exists>d v. double_div (double_of_real 1000000000) (double_of_real 1000000000) = Finite d \<and>
      2 powi (- 30) \<le> d \<and> d \<le> 2 powi 34 \<and>
      Finite 2 = double_div (double_of_real (real (unat (2 :: u64)))) (Finite d) \<and>
      Finite 2 = Finite v \<and> 0 < v \<and> 2 powi (- 34) \<le> v \<and> v \<le> 2 powi 94"
    by simp
  with n r r0 show ?thesis by simp
qed

lemma probed_keys_read_script:
  "probed_keys (take m (read_script L n)) =
     take m (map generated_key (draws L (unat n) (mt19937_64_seed L 0xC0FFEE)))"
  by (simp add: read_script_def take_map probed_keys_gets)

lemma BenchmarkReads_probed:
  assumes "BenchmarkReads W L p opts n t = (r, t')"
  shows "\<exists>m \<le> unat n.
           probed_keys (drop (length t) t') =
             take m (map generated_key (draws L (unat n) (mt19937_64_seed L 0xC0FFEE))) \<and>
           ((\<exists>stats. r = Inr stats) \<longrightarrow> m = unat n)"
proof (cases "n = 0")
  case True
  with assms have "t' = t" by (simp add: BenchmarkReads_def io_return_def)
  with True show ?thesis by simp
next
  case False
  note script = BenchmarkReads_script [OF False, of W L p opts t]
  let ?o = "OpenForReadOnly (opts\<lparr>create_if_missing := False, error_if_exists := False\<rparr>) p"
  show ?thesis
  proof (cases "ok (status_of W t ?o)")
    case nok: False
    with assms script have "t' = t @ [?o]" "\<not> (\<exists>stats. r = Inr stats)" by auto
    then show ?thesis by (intro exI [of _ 0]) simp
  next
    case True
    obtain f t1 where run: "run_calls W (read_script L n) (t @ [?o]) = (f, t1)"
      by (cases "run_calls W (read_script L n) (t @ [?o])")
    from run_calls_trace [OF run] obtain m where m:
      "m \<le> length (read_script L n)" "t1 = (t @ [?o]) @ take m (read_script L n)"
      "f = None \<longrightarrow> m = length (read_script L n)" by blast
    from assms script True run have t': "t' = t1 @ [Close]"
      and s: "(\<exists>stats. r = Inr stats) \<longrightarrow> f = None"
      by (auto split: option.splits)
    from t' m(2) have "probed_keys (drop (length t) t') = probed_keys (take m (read_script L n))"
      by (simp add: probed_keys_append)
    with m s show ?thesis
      by (intro exI [of _ m]) (simp add: probed_keys_read_script length_read_script)
  qed
qed

text \<open>
  C9. The prober seeds its generator with the constant \<open>0xC0FFEE\<close>, so the keys it
  probes are determined by the read-op count alone: in any run, whatever the engine,
  the path, the options and the earlier trace, the keys probed are an initial part of
  the keys of the first \<open>n\<close> draws of the distribution over \<open>[0, kEntryCount - 1]\<close>,
  and all of them when the run succeeds; two successful runs with the same count
  probe the same keys in the same order. When the distribution stays within its
  bounds, as the standard requires, every drawn index is below the entry count.
\<close>

theorem read_prober_index_sequence_is_reproducible:
  assumes "BenchmarkReads W1 L p1 opts1 n t1 = (r1, t1')"
    and "BenchmarkReads W2 L p2 opts2 n t2 = (r2, t2')"
    and "full = map generated_key (draws L (unat n) (mt19937_64_seed L 0xC0FFEE))"
  shows "probed_keys (drop (length t1) t1') = take (length (probed_keys (drop (length t1) t1'))) full \<and>
         probed_keys (drop (length t2) t2') = take (length (probed_keys (drop (length t2) t2'))) full \<and>
         ((\<exists>s1. r1 = Inr s1) \<and> (\<exists>s2. r2 = Inr s2) \<longrightarrow>
            probed_keys (drop (length t1) t1') = full \<and>
            probed_keys (drop (length t2) t2') = probed_keys (drop (length t1) t1')) \<and>
         length full = unat n \<and>
         ((\<forall>g. fst (uniform_int_distribution L 0 (kEntryCount - 1) g) \<le> kEntryCount - 1) \<longrightarrow>
            (\<forall>i \<in> set (draws L (unat n) (mt19937_64_seed L 0xC0FFEE)). i < kEntryCount))"
proof -
  have len: "length full = unat n" by (simp add: assms(3) length_draws)
  have one: "probed_keys (drop (length t) t') = take (length (probed_keys (drop (length t) t'))) full \<and>
             ((\<exists>s. r = Inr s) \<longrightarrow> probed_keys (drop (length t) t') = full)"
    if "BenchmarkReads W L p opts n t = (r, t')" for W p opts t r t'
  proof -
    from BenchmarkReads_probed [OF that] obtain m where m: "m \<le> unat n"
      "probed_keys (drop (length t) t') = take m full" "(\<exists>s. r = Inr s) \<longrightarrow> m = unat n"
      unfolding assms(3) by blast
    from m(1,2) len have "length (probed_keys (drop (length t) t')) = m" by simp
    with m len show ?thesis by auto
  qed
  have range: "\<forall>i \<in> set (draws L (unat n) (mt19937_64_seed L 0xC0FFEE)). i < kEntryCount"
    if "\<forall>g. fst (uniform_int_distribution L 0 (kEntryCount - 1) g) \<le> kEntryCount - 1"
    using that draws_in_range [of L] by blast
  from one [OF assms(1)] one [OF assms(2)] len range show ?thesis by auto
qed

theorem read_prober_index_sequence_is_reproducible_witness:
  "probed_keys (drop (length ([] :: call list))
       (snd (BenchmarkReads world_ok lcg_lib ''a'' (BuildOptions 4096) 2 []))) =
     map generated_key (draws lcg_lib (unat (2 :: u64)) (mt19937_64_seed lcg_lib 0xC0FFEE)) \<and>
   probed_keys (drop (length [Close])
       (snd (BenchmarkReads world_ok lcg_lib ''b'' (BuildOptions 8192) 2 [Close]))) =
     probed_keys (drop (length ([] :: call list))
       (snd (BenchmarkReads world_ok lcg_lib ''a'' (BuildOptions 4096) 2 [])))"
proof -
  have n: "(2 :: u64) \<noteq> 0" by simp
  have a1: "BenchmarkReads world_ok lcg_lib ''a'' (BuildOptions 4096) 2 [] =
      (fst (BenchmarkReads world_ok lcg_lib ''a'' (BuildOptions 4096) 2 []),
       snd (BenchmarkReads world_ok lcg_lib ''a'' (BuildOptions 4096) 2 []))"
    and a2: "BenchmarkReads world_ok lcg_lib ''b'' (BuildOptions 8192) 2 [Close] =
      (fst (BenchmarkReads world_ok lcg_lib ''b'' (BuildOptions 8192) 2 [Close]),
       snd (BenchmarkReads world_ok lcg_lib ''b'' (BuildOptions 8192) 2 [Close]))"
    by simp_all
  have s1: "\<exists>s. fst (BenchmarkReads world_ok lcg_lib ''a'' (BuildOptions 4096) 2 []) = Inr s"
    and s2: "\<exists>s. fst (BenchmarkReads world_ok lcg_lib ''b'' (BuildOptions 8192) 2 [Close]) = Inr s"
    by (simp_all only: BenchmarkReads_world_ok [OF n] fst_conv) blast+
  from read_prober_index_sequence_is_reproducible [OF a1 a2 refl] s1 s2
  show ?thesis by blast
qed


section \<open>The driver\<close>

lemma RunOnce_block_sizes: "RunOnce W L (cfg\<lparr>block_sizes := bss\<rparr>) bs = RunOnce W L cfg bs"
  by (simp add: RunOnce_def Let_def cong: if_cong)

lemma main_loop_block_sizes:
  "main_loop W L (cfg\<lparr>block_sizes := bss\<rparr>) xs results t = main_loop W L cfg xs results t"
  by (induction xs arbitrary: results t)
     (simp_all add: RunOnce_block_sizes split: prod.splits sum.splits)

lemma main_loop_abort:
  assumes "\<forall>x \<in> set pre. 0 < x" and "b \<le> 0"
  shows "main_loop W L cfg (pre @ b # post) results t =
     (case run_sizes W L cfg pre t of
        (Inl ex, t') \<Rightarrow> (EXIT_FAILURE (''Error: '' @ what ex), t')
      | (Inr rs, t') \<Rightarrow> (EXIT_FAILURE (''Block size must be positive: '' @ to_string b), t'))"
  using assms
proof (induction pre arbitrary: results t)
  case Nil
  then show ?case by simp
next
  case (Cons x pre)
  then have "\<not> x \<le> 0" by simp
  with Cons show ?case
    by (simp split: prod.splits sum.splits)
qed

lemma io_bind_InrE:
  assumes "io_bind m f t = (Inr r, t')"
  obtains x t1 where "m t = (Inr x, t1)" "f x t1 = (Inr r, t')"
  using assms by (auto simp add: io_bind_def split: prod.splits sum.splits)

lemma fs_call_Inr: "fs_call W c t = (Inr u, t') \<Longrightarrow> t' = t @ [c]"
  by (auto simp add: fs_call_def Let_def split: if_splits)

lemma fs_exists_Inr:
  "fs_exists W p t = (Inr found, t') \<Longrightarrow> t' = t @ [Exists p] \<and> found = exists_of W t p"
  by (auto simp add: fs_exists_def Let_def split: if_splits)

lemma require_property_Inr:
  "require_property W p t = (Inr v, t') \<Longrightarrow>
   t' = t @ [GetAggregatedIntProperty p] \<and> property_of W t p = Some v"
  by (auto simp add: require_property_def get_property_def io_bind_def io_throw_def io_return_def
      split: option.splits)

lemma RunOnce_load_Inr: "RunOnce_load W n t = (Inr u, t') \<Longrightarrow> t' = t @ bulk_load_script n"
proof -
  assume a: "RunOnce_load W n t = (Inr u, t')"
  obtain f t1 where run: "run_calls W (bulk_load_script n) t = (f, t1)"
    by (cases "run_calls W (bulk_load_script n) t")
  with a have "f = None" "t' = t1"
    by (auto simp add: RunOnce_load_script split: option.splits)
  with run_calls_trace [OF run] show ?thesis by auto
qed

lemma BenchmarkReads_Inr:
  assumes "BenchmarkReads W L p opts n t = (Inr s, t')" and "n \<noteq> 0"
  shows "t' = t @ [OpenForReadOnly (opts\<lparr>create_if_missing := False, error_if_exists := False\<rparr>) p] @
              read_script L n @ [Close]"
proof -
  let ?o = "OpenForReadOnly (opts\<lparr>create_if_missing := False, error_if_exists := False\<rparr>) p"
  note script = BenchmarkReads_script [OF assms(2), of W L p opts t]
  from assms(1) script have opened: "ok (status_of W t ?o)" by (auto split: if_splits)
  obtain f t1 where run: "run_calls W (read_script L n) (t @ [?o]) = (f, t1)"
    by (cases "run_calls W (read_script L n) (t @ [?o])")
  with assms(1) script opened have "f = None" "t' = t1 @ [Close]"
    by (auto split: option.splits)
  with run_calls_trace [OF run] show ?thesis by auto
qed

lemma RunOnce_Inr:
  assumes "RunOnce W L cfg bs t = (Inr r, t')"
    and "p = path_append (db_root cfg) (''block_'' @ to_string bs)"
  shows "t' =
     t @ [CreateDirectories (db_root cfg), Exists p] @
     (if exists_of W (t @ [CreateDirectories (db_root cfg)]) p then [RemoveAll p] else []) @
     [Open (BuildOptions bs) p] @
     bulk_load_script (unat kEntryCount) @
     [GetAggregatedIntProperty ''rocksdb.total-sst-files-size'',
      GetAggregatedIntProperty ''rocksdb.estimate-num-keys'',
      GetAggregatedIntProperty ''rocksdb.estimate-table-readers-mem'',
      Close] @
     (if read_ops cfg > 0
      then [OpenForReadOnly ((BuildOptions bs)\<lparr>create_if_missing := False, error_if_exists := False\<rparr>) p] @
           read_script L (read_ops cfg) @ [Close]
      else []) @
     (if keep_dbs cfg then [] else [RemoveAll p]) \<and>
     block_size r = bs"
proof -
  from assms(1) obtain u1 t1 where
    s1: "fs_call W (CreateDirectories (db_root cfg)) t = (Inr u1, t1)"
    and k1: "io_bind (fs_exists W p) (\<lambda>found.
      io_bind (if found then fs_call W (RemoveAll p) else io_return ()) (\<lambda>_.
      io_bind (engine_call W (Open (BuildOptions bs) p)) (\<lambda>status.
      if \<not> ok status
      then io_throw (RuntimeError (''Failed to open RocksDB at '' @ p @ '': '' @ ToString status))
      else
      io_bind
        (with_db
           (io_bind (RunOnce_load W (unat kEntryCount)) (\<lambda>_.
            io_bind (require_property W ''rocksdb.total-sst-files-size'') (\<lambda>sst.
            io_bind (require_property W ''rocksdb.estimate-num-keys'') (\<lambda>keys.
            io_bind (require_property W ''rocksdb.estimate-table-readers-mem'') (\<lambda>mem.
            io_return
              \<lparr>block_size = bs, total_sst_bytes = sst, estimated_keys = keys,
               table_readers_mem = mem,
               amplification =
                 double_div (double_of_real (real (unat sst)))
                   (double_of_real (real (unat kRawPayloadBytes))),
               read_ops_per_sec = Finite 0\<rparr>))))))
        (\<lambda>result.
      io_bind (if read_ops cfg > 0
               then io_bind (BenchmarkReads W L p (BuildOptions bs) (read_ops cfg))
                      (\<lambda>read_stats. io_return (result\<lparr>read_ops_per_sec := ops_per_sec read_stats\<rparr>))
               else io_return result) (\<lambda>result.
      io_bind (if \<not> keep_dbs cfg then fs_call W (RemoveAll p) else io_return ()) (\<lambda>_.
      io_return result)))))) t1 = (Inr r, t')"
    unfolding RunOnce_def Let_def assms(2) [symmetric] by (erule io_bind_InrE)
  from fs_call_Inr [OF s1] have t1: "t1 = t @ [CreateDirectories (db_root cfg)]" .
  from k1 obtain found t2 where s2: "fs_exists W p t1 = (Inr found, t2)"
    and k2: "io_bind (if found then fs_call W (RemoveAll p) else io_return ()) (\<lambda>_.
      io_bind (engine_call W (Open (BuildOptions bs) p)) (\<lambda>status.
      if \<not> ok status
      then io_throw (RuntimeError (''Failed to open RocksDB at '' @ p @ '': '' @ ToString status))
      else
      io_bind
        (with_db
           (io_bind (RunOnce_load W (unat kEntryCount)) (\<lambda>_.
            io_bind (require_property W ''rocksdb.total-sst-files-size'') (\<lambda>sst.
            io_bind (require_property W ''rocksdb.estimate-num-keys'') (\<lambda>keys.
            io_bind (require_property W ''rocksdb.estimate-table-readers-mem'') (\<lambda>mem.
            io_return
              \<lparr>block_size = bs, total_sst_bytes = sst, estimated_keys = keys,
               table_readers_mem = mem,
               amplification =
                 double_div (double_of_real (real (unat sst)))
                   (double_of_real (real (unat kRawPayloadBytes))),
               read_ops_per_sec = Finite 0\<rparr>))))))
        (\<lambda>result.
      io_bind (if read_ops cfg > 0
               then io_bind (BenchmarkReads W L p (BuildOptions bs) (read_ops cfg))
                      (\<lambda>read_stats. io_return (result\<lparr>read_ops_per_sec := ops_per_sec read_stats\<rparr>))
               else io_return result) (\<lambda>result.
      io_bind (if \<not> keep_dbs cfg then fs_call W (RemoveAll p) else io_return ()) (\<lambda>_.
      io_return result))))) t2 = (Inr r, t')"
    by (erule io_bind_InrE)
  from fs_exists_Inr [OF s2] have t2: "t2 = t1 @ [Exists p]" and found: "found = exists_of W t1 p"
    by simp_all
  from k2 obtain u3 t3 where
    s3: "(if found then fs_call W (RemoveAll p) else io_return ()) t2 = (Inr u3, t3)"
    and k3: "io_bind (engine_call W (Open (BuildOptions bs) p)) (\<lambda>status.
      if \<not> ok status
      then io_throw (RuntimeError (''Failed to open RocksDB at '' @ p @ '': '' @ ToString status))
      else
      io_bind
        (with_db
           (io_bind (RunOnce_load W (unat kEntryCount)) (\<lambda>_.
            io_bind (require_property W ''rocksdb.total-sst-files-size'') (\<lambda>sst.
            io_bind (require_property W ''rocksdb.estimate-num-keys'') (\<lambda>keys.
            io_bind (require_property W ''rocksdb.estimate-table-readers-mem'') (\<lambda>mem.
            io_return
              \<lparr>block_size = bs, total_sst_bytes = sst, estimated_keys = keys,
               table_readers_mem = mem,
               amplification =
                 double_div (double_of_real (real (unat sst)))
                   (double_of_real (real (unat kRawPayloadBytes))),
               read_ops_per_sec = Finite 0\<rparr>))))))
        (\<lambda>result.
      io_bind (if read_ops cfg > 0
               then io_bind (BenchmarkReads W L p (BuildOptions bs) (read_ops cfg))
                      (\<lambda>read_stats. io_return (result\<lparr>read_ops_per_sec := ops_per_sec read_stats\<rparr>))
               else io_return result) (\<lambda>result.
      io_bind (if \<not> keep_dbs cfg then fs_call W (RemoveAll p) else io_return ()) (\<lambda>_.
      io_return result)))) t3 = (Inr r, t')"
    by (erule io_bind_InrE)
  from s3 have t3: "t3 = t2 @ (if found then [RemoveAll p] else [])"
    by (auto simp add: io_return_def dest: fs_call_Inr split: if_splits)
  from k3 obtain status t4 where s4: "engine_call W (Open (BuildOptions bs) p) t3 = (Inr status, t4)"
    and k4: "(if \<not> ok status
      then io_throw (RuntimeError (''Failed to open RocksDB at '' @ p @ '': '' @ ToString status))
      else
      io_bind
        (with_db
           (io_bind (RunOnce_load W (unat kEntryCount)) (\<lambda>_.
            io_bind (require_property W ''rocksdb.total-sst-files-size'') (\<lambda>sst.
            io_bind (require_property W ''rocksdb.estimate-num-keys'') (\<lambda>keys.
            io_bind (require_property W ''rocksdb.estimate-table-readers-mem'') (\<lambda>mem.
            io_return
              \<lparr>block_size = bs, total_sst_bytes = sst, estimated_keys = keys,
               table_readers_mem = mem,
               amplification =
                 double_div (double_of_real (real (unat sst)))
                   (double_of_real (real (unat kRawPayloadBytes))),
               read_ops_per_sec = Finite 0\<rparr>))))))
        (\<lambda>result.
      io_bind (if read_ops cfg > 0
               then io_bind (BenchmarkReads W L p (BuildOptions bs) (read_ops cfg))
                      (\<lambda>read_stats. io_return (result\<lparr>read_ops_per_sec := ops_per_sec read_stats\<rparr>))
               else io_return result) (\<lambda>result.
      io_bind (if \<not> keep_dbs cfg then fs_call W (RemoveAll p) else io_return ()) (\<lambda>_.
      io_return result)))) t4 = (Inr r, t')"
    by (erule io_bind_InrE)
  from s4 have t4: "t4 = t3 @ [Open (BuildOptions bs) p]" by (simp add: engine_call_def)
  from k4 have k4': "io_bind
        (with_db
           (io_bind (RunOnce_load W (unat kEntryCount)) (\<lambda>_.
            io_bind (require_property W ''rocksdb.total-sst-files-size'') (\<lambda>sst.
            io_bind (require_property W ''rocksdb.estimate-num-keys'') (\<lambda>keys.
            io_bind (require_property W ''rocksdb.estimate-table-readers-mem'') (\<lambda>mem.
            io_return
              \<lparr>block_size = bs, total_sst_bytes = sst, estimated_keys = keys,
               table_readers_mem = mem,
               amplification =
                 double_div (double_of_real (real (unat sst)))
                   (double_of_real (real (unat kRawPayloadBytes))),
               read_ops_per_sec = Finite 0\<rparr>))))))
        (\<lambda>result.
      io_bind (if read_ops cfg > 0
               then io_bind (BenchmarkReads W L p (BuildOptions bs) (read_ops cfg))
                      (\<lambda>read_stats. io_return (result\<lparr>read_ops_per_sec := ops_per_sec read_stats\<rparr>))
               else io_return result) (\<lambda>result.
      io_bind (if \<not> keep_dbs cfg then fs_call W (RemoveAll p) else io_return ()) (\<lambda>_.
      io_return result))) t4 = (Inr r, t')"
    by (auto simp add: io_throw_def split: if_splits)
  then obtain r5 t5 where
    s5: "with_db
           (io_bind (RunOnce_load W (unat kEntryCount)) (\<lambda>_.
            io_bind (require_property W ''rocksdb.total-sst-files-size'') (\<lambda>sst.
            io_bind (require_property W ''rocksdb.estimate-num-keys'') (\<lambda>keys.
            io_bind (require_property W ''rocksdb.estimate-table-readers-mem'') (\<lambda>mem.
            io_return
              \<lparr>block_size = bs, total_sst_bytes = sst, estimated_keys = keys,
               table_readers_mem = mem,
               amplification =
                 double_div (double_of_real (real (unat sst)))
                   (double_of_real (real (unat kRawPayloadBytes))),
               read_ops_per_sec = Finite 0\<rparr>))))) t4 = (Inr r5, t5)"
    and k5: "io_bind (if read_ops cfg > 0
               then io_bind (BenchmarkReads W L p (BuildOptions bs) (read_ops cfg))
                      (\<lambda>read_stats. io_return (r5\<lparr>read_ops_per_sec := ops_per_sec read_stats\<rparr>))
               else io_return r5) (\<lambda>result.
      io_bind (if \<not> keep_dbs cfg then fs_call W (RemoveAll p) else io_return ()) (\<lambda>_.
      io_return result)) t5 = (Inr r, t')"
    by (erule io_bind_InrE)
  from s5 obtain t5' where
    b5: "io_bind (RunOnce_load W (unat kEntryCount)) (\<lambda>_.
            io_bind (require_property W ''rocksdb.total-sst-files-size'') (\<lambda>sst.
            io_bind (require_property W ''rocksdb.estimate-num-keys'') (\<lambda>keys.
            io_bind (require_property W ''rocksdb.estimate-table-readers-mem'') (\<lambda>mem.
            io_return
              \<lparr>block_size = bs, total_sst_bytes = sst, estimated_keys = keys,
               table_readers_mem = mem,
               amplification =
                 double_div (double_of_real (real (unat sst)))
                   (double_of_real (real (unat kRawPayloadBytes))),
               read_ops_per_sec = Finite 0\<rparr>)))) t4 = (Inr r5, t5')"
    and t5: "t5 = t5' @ [Close]"
    by (auto simp add: with_db_def split: prod.splits)
  from b5 have t5': "t5' = t4 @ bulk_load_script (unat kEntryCount) @
      [GetAggregatedIntProperty ''rocksdb.total-sst-files-size'',
       GetAggregatedIntProperty ''rocksdb.estimate-num-keys'',
       GetAggregatedIntProperty ''rocksdb.estimate-table-readers-mem'']"
    and r5: "block_size r5 = bs"
    by (auto elim!: io_bind_InrE simp add: io_return_def
        dest!: RunOnce_load_Inr require_property_Inr)
  from k5 obtain r6 t6 where
    s6: "(if read_ops cfg > 0
               then io_bind (BenchmarkReads W L p (BuildOptions bs) (read_ops cfg))
                      (\<lambda>read_stats. io_return (r5\<lparr>read_ops_per_sec := ops_per_sec read_stats\<rparr>))
               else io_return r5) t5 = (Inr r6, t6)"
    and k6: "io_bind (if \<not> keep_dbs cfg then fs_call W (RemoveAll p) else io_return ()) (\<lambda>_.
      io_return r6) t6 = (Inr r, t')"
    by (erule io_bind_InrE)
  have t6r6: "t6 = t5 @ (if read_ops cfg > 0
      then [OpenForReadOnly ((BuildOptions bs)\<lparr>create_if_missing := False, error_if_exists := False\<rparr>) p] @
           read_script L (read_ops cfg) @ [Close]
      else []) \<and> block_size r6 = bs"
  proof (cases "read_ops cfg > 0")
    case True
    then have nz: "read_ops cfg \<noteq> 0" by auto
    from s6 True obtain st where st:
      "BenchmarkReads W L p (BuildOptions bs) (read_ops cfg) t5 = (Inr st, t6)"
      "r6 = r5\<lparr>read_ops_per_sec := ops_per_sec st\<rparr>"
      by (auto elim!: io_bind_InrE simp add: io_return_def)
    from BenchmarkReads_Inr [OF st(1) nz] st(2) True r5 show ?thesis
      by simp
  next
    case False
    with s6 r5 show ?thesis
      by (auto simp add: io_return_def)
  qed
  then have t6: "t6 = t5 @ (if read_ops cfg > 0
      then [OpenForReadOnly ((BuildOptions bs)\<lparr>create_if_missing := False, error_if_exists := False\<rparr>) p] @
           read_script L (read_ops cfg) @ [Close]
      else [])" and r6: "block_size r6 = bs"
    by simp_all
  from k6 have t': "t' = t6 @ (if keep_dbs cfg then [] else [RemoveAll p])" and r: "r = r6"
    by (auto elim!: io_bind_InrE simp add: io_return_def dest: fs_call_Inr split: if_splits)
  show ?thesis
    by (simp add: t' r r6 t6 t5 t5' t4 t3 t2 t1 found)
qed

text \<open>
  C1, as the code has it. Let the block sizes before the first non-positive one be
  \<open>pre\<close> (all positive). The driver runs \<open>RunOnce\<close> for the sizes of \<open>pre\<close> in order,
  each from the trace the previous one left, and makes no call for the non-positive
  value or for any size after it. If one of those runs throws, the driver ends there
  with \<open>Error: <what>\<close>; if all succeed, it ends with \<open>Block size must be positive:
  <value>\<close>. It never exits successfully. If \<open>pre\<close> is empty, no call is made at all.
  Every run of \<open>RunOnce\<close> that succeeds has created the instance for its block size,
  loaded it with the whole call sequence of the loader, queried the three properties
  and closed it, then probed it when \<open>read_ops > 0\<close> and removed it unless kept.
\<close>

theorem main_aborts_at_first_nonpositive_block_size:
  assumes "\<forall>x \<in> set pre. 0 < x" and "b \<le> 0"
  shows "main W L (cfg\<lparr>block_sizes := pre @ b # post\<rparr>) =
           (case run_sizes W L cfg pre [] of
              (Inl ex, t') \<Rightarrow> (EXIT_FAILURE (''Error: '' @ what ex), t')
            | (Inr rs, t') \<Rightarrow>
                (EXIT_FAILURE (''Block size must be positive: '' @ to_string b), t')) \<and>
         (\<forall>rs. fst (main W L (cfg\<lparr>block_sizes := pre @ b # post\<rparr>)) \<noteq> EXIT_SUCCESS rs) \<and>
         (pre = [] \<longrightarrow>
            main W L (cfg\<lparr>block_sizes := pre @ b # post\<rparr>) =
              (EXIT_FAILURE (''Block size must be positive: '' @ to_string b), [])) \<and>
         (\<forall>bs t r t'. RunOnce W L cfg bs t = (Inr r, t') \<longrightarrow>
            t' =
              t @ [CreateDirectories (db_root cfg),
                   Exists (path_append (db_root cfg) (''block_'' @ to_string bs))] @
              (if exists_of W (t @ [CreateDirectories (db_root cfg)])
                    (path_append (db_root cfg) (''block_'' @ to_string bs))
               then [RemoveAll (path_append (db_root cfg) (''block_'' @ to_string bs))] else []) @
              [Open (BuildOptions bs) (path_append (db_root cfg) (''block_'' @ to_string bs))] @
              bulk_load_script (unat kEntryCount) @
              [GetAggregatedIntProperty ''rocksdb.total-sst-files-size'',
               GetAggregatedIntProperty ''rocksdb.estimate-num-keys'',
               GetAggregatedIntProperty ''rocksdb.estimate-table-readers-mem'',
               Close] @
              (if read_ops cfg > 0
               then [OpenForReadOnly
                       ((BuildOptions bs)\<lparr>create_if_missing := False, error_if_exists := False\<rparr>)
                       (path_append (db_root cfg) (''block_'' @ to_string bs))] @
                    read_script L (read_ops cfg) @ [Close]
               else []) @
              (if keep_dbs cfg then []
               else [RemoveAll (path_append (db_root cfg) (''block_'' @ to_string bs))]) \<and>
            block_size r = bs)"
proof -
  have full: "main W L (cfg\<lparr>block_sizes := pre @ b # post\<rparr>) =
     (case run_sizes W L cfg pre [] of
        (Inl ex, t') \<Rightarrow> (EXIT_FAILURE (''Error: '' @ what ex), t')
      | (Inr rs, t') \<Rightarrow> (EXIT_FAILURE (''Block size must be positive: '' @ to_string b), t'))"
  proof -
    have "main W L (cfg\<lparr>block_sizes := pre @ b # post\<rparr>) =
          main_loop W L cfg (pre @ b # post) [] []"
      by (simp add: main_def main_loop_block_sizes)
    then show ?thesis by (simp only: main_loop_abort [OF assms])
  qed
  have never: "fst (main W L (cfg\<lparr>block_sizes := pre @ b # post\<rparr>)) \<noteq> EXIT_SUCCESS rs" for rs
    unfolding full by (simp split: prod.splits sum.splits)
  have first: "main W L (cfg\<lparr>block_sizes := pre @ b # post\<rparr>) =
      (EXIT_FAILURE (''Block size must be positive: '' @ to_string b), [])" if "pre = []"
    unfolding full using that by simp
  from full never first RunOnce_Inr [OF _ refl, of W L cfg] show ?thesis
    by (intro conjI allI impI) (assumption | blast)+
qed

lemma to_string_4096: "to_string 4096 = ''4096''"
  by (simp add: to_string_def dec_digits.simps char_eval)

lemma to_string_0: "to_string 0 = ''0''"
  by (simp add: to_string_def dec_digits.simps char_eval)

lemma RunOnce_world_ok:
  assumes "read_ops cfg = 0"
  shows "\<exists>r. RunOnce world_ok L cfg bs t =
     (Inr r,
      t @ [CreateDirectories (db_root cfg),
           Exists (path_append (db_root cfg) (''block_'' @ to_string bs)),
           Open (BuildOptions bs) (path_append (db_root cfg) (''block_'' @ to_string bs))] @
      bulk_load_script (unat kEntryCount) @
      [GetAggregatedIntProperty ''rocksdb.total-sst-files-size'',
       GetAggregatedIntProperty ''rocksdb.estimate-num-keys'',
       GetAggregatedIntProperty ''rocksdb.estimate-table-readers-mem'',
       Close] @
      (if keep_dbs cfg then [] else [RemoveAll (path_append (db_root cfg) (''block_'' @ to_string bs))]))"
proof -
  have o: "status_of world_ok t c = OK" for t c by (simp add: world_ok_def)
  have e: "exists_of world_ok t p = False" for t p by (simp add: world_ok_def)
  have pr: "property_of world_ok t p = Some 4294967296" for t p by (simp add: world_ok_def)
  have load: "RunOnce_load world_ok n t = (Inr (), t @ bulk_load_script n)" for n t
    using run_calls_all_ok [OF all_ok_world_ok, of "bulk_load_script n" t]
    by (simp add: RunOnce_load_script)
  show ?thesis
    using assms
    by (simp add: RunOnce_def Let_def io_bind_def fs_call_def fs_exists_def engine_call_def
        io_return_def io_throw_def with_db_def require_property_def get_property_def
        o e pr ok_def load)
qed

text \<open>
  With block sizes \<open>4096, 0\<close> the run ends with the configuration error, but an
  instance for block size 4096 has been created and loaded before.
\<close>

theorem main_creates_instances_before_offending_block_size:
  "fst (main world_ok lcg_lib
          \<lparr>block_sizes = [4096, 0], db_root = ''runs'', keep_dbs = False, read_ops = 0\<rparr>) =
     EXIT_FAILURE ''Block size must be positive: 0'' \<and>
   Open (BuildOptions 4096) ''runs/block_4096'' \<in>
     set (snd (main world_ok lcg_lib
          \<lparr>block_sizes = [4096, 0], db_root = ''runs'', keep_dbs = False, read_ops = 0\<rparr>))"
proof -
  let ?cfg = "\<lparr>block_sizes = [4096, 0], db_root = ''runs'', keep_dbs = False, read_ops = 0\<rparr>"
  from RunOnce_world_ok [of ?cfg lcg_lib 4096 "[]"] obtain r where
    r: "RunOnce world_ok lcg_lib ?cfg 4096 [] =
      (Inr r,
       [CreateDirectories ''runs'', Exists ''runs/block_4096'',
        Open (BuildOptions 4096) ''runs/block_4096''] @
       bulk_load_script (unat kEntryCount) @
       [GetAggregatedIntProperty ''rocksdb.total-sst-files-size'',
        GetAggregatedIntProperty ''rocksdb.estimate-num-keys'',
        GetAggregatedIntProperty ''rocksdb.estimate-table-readers-mem'',
        Close, RemoveAll ''runs/block_4096''])"
    by (auto simp add: path_append_def to_string_4096)
  show ?thesis
    by (simp add: main_def r to_string_0)
qed

theorem main_aborts_at_first_nonpositive_block_size_witness:
  "main world_ok lcg_lib
     \<lparr>block_sizes = [4096] @ 0 # [8192], db_root = ''runs'', keep_dbs = False, read_ops = 0\<rparr> =
     (EXIT_FAILURE ''Block size must be positive: 0'',
      [CreateDirectories ''runs'', Exists ''runs/block_4096'',
       Open (BuildOptions 4096) ''runs/block_4096''] @
      bulk_load_script (unat kEntryCount) @
      [GetAggregatedIntProperty ''rocksdb.total-sst-files-size'',
       GetAggregatedIntProperty ''rocksdb.estimate-num-keys'',
       GetAggregatedIntProperty ''rocksdb.estimate-table-readers-mem'',
       Close, RemoveAll ''runs/block_4096'']) \<and>
   main world_ok lcg_lib
     \<lparr>block_sizes = [] @ 0 # [8192], db_root = ''runs'', keep_dbs = False, read_ops = 0\<rparr> =
     (EXIT_FAILURE ''Block size must be positive: 0'', [])"
proof -
  let ?cfg = "\<lparr>block_sizes = [], db_root = ''runs'', keep_dbs = False, read_ops = 0\<rparr>"
  have a: "\<forall>x \<in> set [4096 :: int]. 0 < x" and a0: "\<forall>x \<in> set ([] :: int list). 0 < x"
    and b: "(0 :: int) \<le> 0"
    by simp_all
  from RunOnce_world_ok [of ?cfg lcg_lib 4096 "[]"] obtain r where
    r: "RunOnce world_ok lcg_lib ?cfg 4096 [] =
      (Inr r,
       [CreateDirectories ''runs'', Exists ''runs/block_4096'',
        Open (BuildOptions 4096) ''runs/block_4096''] @
       bulk_load_script (unat kEntryCount) @
       [GetAggregatedIntProperty ''rocksdb.total-sst-files-size'',
        GetAggregatedIntProperty ''rocksdb.estimate-num-keys'',
        GetAggregatedIntProperty ''rocksdb.estimate-table-readers-mem'',
        Close, RemoveAll ''runs/block_4096''])"
    by (auto simp add: path_append_def to_string_4096)
  from main_aborts_at_first_nonpositive_block_size
    [OF a b, where W = world_ok and L = lcg_lib and post = "[8192]" and cfg = ?cfg]
    main_aborts_at_first_nonpositive_block_size
    [OF a0 b, where W = world_ok and L = lcg_lib and post = "[8192]" and cfg = ?cfg]
  show ?thesis
    by (simp add: r to_string_0)
qed

end
